theory Spec2Isabelle
  imports Main "HOL-Library.Word"
begin

section \<open>The gfcli command shell (src/glfs-cli.c)\<close>

text \<open>
  A shallow embedding of the dispatch and shell-session code of \<^verbatim>\<open>glfs-cli.c\<close>.
  C strings are modelled in two ways. Where the code only compares or prints a string, it
  is a HOL \<open>string\<close> holding the characters before the terminating NUL. Where the code
  walks or overwrites a buffer (\<^verbatim>\<open>strtok_r\<close>, \<^verbatim>\<open>trim\<close>, \<^verbatim>\<open>split_str\<close>),
  the buffer is a \<open>char list\<close> that contains its terminator and a pointer is an offset
  into it. Whether the \<^verbatim>\<open>strdup\<close> and the \<^verbatim>\<open>malloc\<close> of one turn of the shell
  loop succeed is part of the input. The two \<^verbatim>\<open>malloc\<close> calls at the start of
  \<^verbatim>\<open>main\<close> are taken to succeed (\<^verbatim>\<open>main\<close> exits at once when one fails).
\<close>

subsection \<open>Characters and C strings\<close>

definition NUL :: char where
  "NUL = CHR 0x00"

definition SP :: char where
  "SP = CHR '' ''"

definition NL :: char where
  "NL = CHR 0x0A"

definition TAB :: char where
  "TAB = CHR 0x09"

text \<open>\<^verbatim>\<open>isspace\<close> of the C locale: space, \<^verbatim>\<open>\t \n \v \f \r\<close>.\<close>

definition isspace :: "char \<Rightarrow> bool" where
  "isspace c \<longleftrightarrow>
     c = CHR '' '' \<or> c = CHR 0x09 \<or> c = CHR 0x0A \<or> c = CHR 0x0B \<or> c = CHR 0x0C \<or> c = CHR 0x0D"

text \<open>The C string that starts at offset \<open>off\<close> of a buffer.\<close>

definition cstr :: "char list \<Rightarrow> nat \<Rightarrow> string" where
  "cstr buf off = takeWhile (\<lambda>c. c \<noteq> NUL) (drop off buf)"

definition strlen :: "char list \<Rightarrow> nat \<Rightarrow> nat" where
  "strlen buf off = length (cstr buf off)"

text \<open>
  \<^verbatim>\<open>strcmp\<close> on the contents of two C strings: the difference of the first pair of
  bytes that differ (as unsigned char), the end of a string counting as the byte 0.
\<close>

fun strcmp :: "string \<Rightarrow> string \<Rightarrow> int" where
  "strcmp [] [] = 0"
| "strcmp [] (b # bs) = - of_char b"
| "strcmp (a # as) [] = of_char a"
| "strcmp (a # as) (b # bs) = (if a = b then strcmp as bs else of_char a - of_char b)"

subsection \<open>The command registry\<close>

text \<open>
  The handlers named by the table. Only \<^verbatim>\<open>shell_usage\<close> is defined in
  \<^verbatim>\<open>glfs-cli.c\<close>; the others live in other files of the repository.
\<close>

datatype handler =
    Cli_connect | Cli_disconnect | Do_cat | Do_cp | Shell_usage | Do_ls | Do_mkdir
  | Not_implemented | Handle_quit | Do_rm | Do_stat | Do_tail

record cmd =
  cmd_alias :: "string option"
  name :: string
  execute :: handler

definition NUM_CMDS :: nat where
  "NUM_CMDS = 12"

definition cmds :: "cmd list" where
  "cmds =
    [ \<lparr>cmd_alias = None, name = ''connect'', execute = Cli_connect\<rparr>,
      \<lparr>cmd_alias = None, name = ''disconnect'', execute = Cli_disconnect\<rparr>,
      \<lparr>cmd_alias = Some ''gfcat'', name = ''cat'', execute = Do_cat\<rparr>,
      \<lparr>cmd_alias = Some ''gfcp'', name = ''cp'', execute = Do_cp\<rparr>,
      \<lparr>cmd_alias = None, name = ''help'', execute = Shell_usage\<rparr>,
      \<lparr>cmd_alias = Some ''gfls'', name = ''ls'', execute = Do_ls\<rparr>,
      \<lparr>cmd_alias = Some ''gfmkdir'', name = ''mkdir'', execute = Do_mkdir\<rparr>,
      \<lparr>cmd_alias = Some ''gfmv'', name = ''mv'', execute = Not_implemented\<rparr>,
      \<lparr>cmd_alias = None, name = ''quit'', execute = Handle_quit\<rparr>,
      \<lparr>cmd_alias = Some ''gfrm'', name = ''rm'', execute = Do_rm\<rparr>,
      \<lparr>cmd_alias = Some ''gfstat'', name = ''stat'', execute = Do_stat\<rparr>,
      \<lparr>cmd_alias = Some ''gftail'', name = ''tail'', execute = Do_tail\<rparr> ]"

text \<open>
  \<^verbatim>\<open>get_cmd\<close>: the loop \<^verbatim>\<open>for (j = 0; j < NUM_CMDS; j++)\<close> over the table, leaving
  with the first entry whose name, or whose non-NULL alias, compares equal.
\<close>

fun get_cmd_loop :: "string \<Rightarrow> cmd list \<Rightarrow> cmd option" where
  "get_cmd_loop nm [] = None"
| "get_cmd_loop nm (c # cs) =
     (if strcmp nm (name c) = 0 \<or> (cmd_alias c \<noteq> None \<and> strcmp nm (the (cmd_alias c)) = 0)
      then Some c
      else get_cmd_loop nm cs)"

definition get_cmd :: "string \<Rightarrow> cmd option" where
  "get_cmd nm = get_cmd_loop nm (take NUM_CMDS cmds)"

text \<open>The lines \<^verbatim>\<open>shell_usage\<close> prints; it returns 0.\<close>

definition shell_usage_text :: "string list" where
  "shell_usage_text =
    [ ''The following commands are supported:'',
      ''* cat'', ''* connect'', ''* cp'', ''* disconnect'', ''* help'', ''* ls'',
      ''* mkdir'', ''* quit'', ''* rm'', ''* stat'', ''* tail'' ]"

text \<open>The content of a C string holds no NUL.\<close>

definition is_cstring :: "string \<Rightarrow> bool" where
  "is_cstring s \<longleftrightarrow> NUL \<notin> set s"

subsection \<open>Faults\<close>

text \<open>
  What C leaves undefined is a value of the model: a call on a NULL pointer or a read
  through one, a read outside the buffer a pointer belongs to, the overflow of an
  \<^verbatim>\<open>int\<close>, an access to a freed block, a second release.
\<close>

type_synonym addr = nat

datatype fault =
    Null_pointer
  | Read_outside nat
  | Read_past_end
  | Int_overflow
  | Use_after_free
  | Double_free addr

subsection \<open>The first token: \<^verbatim>\<open>strtok_r\<close> and \<^verbatim>\<open>trim\<close>\<close>

text \<open>
  The first call \<^verbatim>\<open>strtok_r (line_copy, " ", &pos)\<close>: skip the leading spaces; at the
  terminator there is no token (NULL); otherwise the token runs to the next space, which is
  overwritten by NUL, or to the terminator. The result is the buffer after the write and the
  offset of the token in it.
\<close>

definition strtok_r :: "char list \<Rightarrow> (char list \<times> nat) option" where
  "strtok_r buf =
     (let s = length (takeWhile (\<lambda>c. c = SP) buf) in
      if length buf \<le> s \<or> buf ! s = NUL then None
      else
        let e = s + length (takeWhile (\<lambda>c. c \<noteq> SP \<and> c \<noteq> NUL) (drop s buf)) in
        Some (if e < length buf \<and> buf ! e = SP then buf[e := NUL] else buf, s))"

text \<open>\<^verbatim>\<open>i--\<close> on a \<^verbatim>\<open>size_t\<close> of 64 bits: 0 wraps to \<open>2 ^ 64 - 1\<close>.\<close>

definition size_dec :: "nat \<Rightarrow> nat" where
  "size_dec i = (i + 2 ^ 64 - 1) mod 2 ^ 64"

lemma filter_update_less:
  "p < length xs \<Longrightarrow> P (xs ! p) \<Longrightarrow> \<not> P y \<Longrightarrow>
   length (filter P (xs[p := y])) < length (filter P xs)"
proof (induction xs arbitrary: p)
  case Nil
  then show ?case by simp
next
  case (Cons x xs)
  then show ?case by (cases p) auto
qed

text \<open>
  The loop of \<^verbatim>\<open>trim\<close>, \<^verbatim>\<open>for (size_t i = len - 1; i >= 0; i--)\<close>. Its condition
  compares an unsigned value with 0 and is always true, so the loop is left only by the
  \<^verbatim>\<open>break\<close>. \<open>str[i]\<close> is the byte at \<open>off + i\<close> of the buffer, the address
  wrapping at \<open>2 ^ 64\<close>; a read outside the buffer is a fault that carries \<open>i\<close>.
\<close>

function trim_loop :: "char list \<Rightarrow> nat \<Rightarrow> nat \<Rightarrow> fault + char list" where
  "trim_loop buf off i =
     (if length buf \<le> (off + i) mod 2 ^ 64 then Inl (Read_outside i)
      else if isspace (buf ! ((off + i) mod 2 ^ 64))
        then trim_loop (buf[(off + i) mod 2 ^ 64 := NUL]) off (size_dec i)
        else Inr buf)"
  by pat_completeness auto
termination
proof (relation "measure (\<lambda>(buf, off, i). length (filter isspace buf))")
  show "wf (measure (\<lambda>(buf, off, i). length (filter isspace buf)))" by simp
next
  fix buf :: "char list" and off i :: nat
  assume "\<not> length buf \<le> (off + i) mod 2 ^ 64"
    and "isspace (buf ! ((off + i) mod 2 ^ 64))"
  moreover have "\<not> isspace NUL" by (simp add: isspace_def NUL_def)
  ultimately show "((buf[(off + i) mod 2 ^ 64 := NUL], off, size_dec i), (buf, off, i))
      \<in> measure (\<lambda>(buf, off, i). length (filter isspace buf))"
    by (simp add: filter_update_less)
qed

declare trim_loop.simps [simp del]

definition trim :: "char list \<Rightarrow> nat \<Rightarrow> fault + char list" where
  "trim buf off = trim_loop buf off (size_dec (strlen buf off))"

text \<open>
  Lines 187 to 194 of \<^verbatim>\<open>start_shell\<close>: \<^verbatim>\<open>strdup\<close> of the line, \<^verbatim>\<open>strtok_r\<close>,
  \<^verbatim>\<open>trim\<close>; the result is the string \<^verbatim>\<open>token\<close> then points to. \<^verbatim>\<open>trim\<close> is
  called on whatever \<^verbatim>\<open>strtok_r\<close> returned, and its \<^verbatim>\<open>strlen\<close> faults on NULL.
\<close>

definition shell_token :: "string \<Rightarrow> fault + string" where
  "shell_token line =
     (let line_copy = cstr (line @ [NUL]) 0 @ [NUL] in
      case strtok_r line_copy of
        None \<Rightarrow> Inl Null_pointer
      | Some (buf, token) \<Rightarrow>
          (case trim buf token of
             Inl f \<Rightarrow> Inl f
           | Inr buf' \<Rightarrow> Inr (cstr buf' token)))"

subsection \<open>\<^verbatim>\<open>split_str\<close>\<close>

text \<open>
  The first loop counts the spaces before the terminator in \<^verbatim>\<open>int argc\<close>; an
  \<^verbatim>\<open>argc++\<close> at \<^verbatim>\<open>INT_MAX\<close> is an overflow. The second loop walks the line
  pointer, here the rest of the buffer from the pointer on: a token runs to the next space,
  newline or terminator, which is overwritten by NUL, and the pointer moves one past it.
  A slot of \<^verbatim>\<open>argv\<close> the second loop does not reach stays uninitialised (\<open>None\<close>).
  When \<^verbatim>\<open>malloc\<close> fails, \<^verbatim>\<open>*argv\<close> is NULL and \<^verbatim>\<open>argc\<close> is returned all the
  same.
\<close>

definition INT_MAX :: nat where
  "INT_MAX = 2 ^ 31 - 1"

fun count_args :: "char list \<Rightarrow> nat \<Rightarrow> fault + nat" where
  "count_args [] argc = Inr argc"
| "count_args (c # cs) argc =
     (if c = NUL then Inr argc
      else if c = SP then
        (if INT_MAX \<le> argc then Inl Int_overflow else count_args cs (argc + 1))
      else count_args cs argc)"

fun fill_args :: "nat \<Rightarrow> char list \<Rightarrow> fault + string list" where
  "fill_args 0 line = Inr []"
| "fill_args (Suc n) [] = Inl Read_past_end"
| "fill_args (Suc n) (c # cs) =
     (if c = NUL then Inr []
      else
        let tok = takeWhile (\<lambda>x. x \<noteq> SP \<and> x \<noteq> NL \<and> x \<noteq> NUL) (c # cs) in
        case fill_args n (drop (Suc (length tok)) (c # cs)) of
          Inl f \<Rightarrow> Inl f
        | Inr toks \<Rightarrow> Inr (tok # toks))"

text \<open>
  \<open>split_str malloc_ok line\<close>: the result is \<^verbatim>\<open>argc\<close> and what \<^verbatim>\<open>*argv\<close> points
  to afterwards, \<open>None\<close> for NULL.
\<close>

definition split_str :: "bool \<Rightarrow> string \<Rightarrow> fault + (int \<times> string option list option)" where
  "split_str malloc_ok line =
     (case count_args (line @ [NUL]) 0 of
        Inl f \<Rightarrow> Inl f
      | Inr n \<Rightarrow>
          if INT_MAX \<le> n then Inl Int_overflow
          else
            let argc = n + 1 in
            if \<not> malloc_ok then Inr (int argc, None)
            else
              case fill_args argc (line @ [NUL]) of
                Inl f \<Rightarrow> Inl f
              | Inr toks \<Rightarrow>
                  Inr (int argc, Some (map Some toks @ replicate (argc - length toks) None)))"

subsection \<open>The context and the process state\<close>

text \<open>
  \<^verbatim>\<open>struct cli_context\<close> and the options it points to are declared in
  \<^verbatim>\<open>glfs-cli.h\<close>; the fields are those \<^verbatim>\<open>glfs-cli.c\<close> uses. A pointer to a
  resource is an address, NULL is \<open>None\<close>. The state holds the global pointer
  \<^verbatim>\<open>ctx\<close>, the two structs, and the set of blocks and handles not yet released.
\<close>

type_synonym xlator_option = "string \<times> string"

record cli_context =
  argc :: int
  argv :: "string option list option"
  conn_str :: "string option"
  fs :: "addr option"
  options :: "addr option"
  url :: "addr option"
  in_shell :: bool

record cli_options =
  debug :: bool
  xlator_options :: "xlator_option list"

record state =
  ctx :: addr
  ctx_mem :: cli_context
  options_mem :: cli_options
  live :: "addr set"

text \<open>
  A handler returns a status and leaves a state, or ends the process with \<^verbatim>\<open>exit\<close>.
  The handlers and helpers defined in other files of the repository are parameters.
  A handler that returns is taken to leave the context block allocated.
\<close>

datatype handler_result = Returns int state | Exits int

record externals =
  handlers :: "handler \<Rightarrow> state \<Rightarrow> handler_result"
  parse_xlator_option :: "string \<Rightarrow> xlator_option option"
  append_xlator_option :: "xlator_option list \<Rightarrow> xlator_option \<Rightarrow> xlator_option list option"
  apply_xlator_options :: "state \<Rightarrow> int"

datatype event =
    Prompt "string option"
  | Unknown_command string
  | Invoked handler "string option list"
  | Printed "string list"
  | Error_reported string

definition shell_usage :: "string list \<times> int" where
  "shell_usage = (shell_usage_text, 0)"

text \<open>\<^verbatim>\<open>cmd->execute (ctx)\<close>: the call through the table's function pointer.\<close>

definition execute_cmd :: "externals \<Rightarrow> handler \<Rightarrow> state \<Rightarrow> event list \<times> handler_result" where
  "execute_cmd E h s =
     (if h = Shell_usage then ([Printed (fst shell_usage)], Returns (snd shell_usage) s)
      else ([], handlers E h s))"

subsection \<open>\<^verbatim>\<open>start_shell\<close>\<close>

text \<open>
  Standard input is the sequence of lines \<^verbatim>\<open>getline\<close> delivers, each with its
  newline when it has one; at the end of the sequence \<^verbatim>\<open>getline\<close> returns -1. Each
  line comes with what the allocator does in the turn of the loop that reads it: both
  allocations succeed, the \<^verbatim>\<open>strdup\<close> of the line fails, or the \<^verbatim>\<open>malloc\<close> of
  \<^verbatim>\<open>split_str\<close> fails. The result is what the loop printed and did, and how it ended:
  by \<^verbatim>\<open>return ret\<close> (with the state and the input left), by a handler's
  \<^verbatim>\<open>exit\<close>, or by a fault.
\<close>

datatype alloc = Alloc_ok | Strdup_fails | Malloc_fails

type_synonym input = "string \<times> alloc"

datatype shell_result =
    Shell_returns int state "input list"
  | Shell_exits int
  | Shell_faults fault

definition emit :: "event list \<Rightarrow> event list \<times> shell_result \<Rightarrow> event list \<times> shell_result" where
  "emit es r = (es @ fst r, snd r)"

text \<open>
  One turn: the prompt; the test for a leading newline; \<^verbatim>\<open>strdup\<close>, whose failure is
  reported by \<^verbatim>\<open>error (0, ...)\<close> and leaves the loop with \<^verbatim>\<open>ret\<close> still 0; the
  token and the lookup; for a command, \<^verbatim>\<open>split_str\<close>, the read of \<^verbatim>\<open>argv[0]\<close>
  for \<^verbatim>\<open>program_invocation_name\<close> (through NULL when \<^verbatim>\<open>malloc\<close> failed) and the
  call of the handler, whose status is dropped at the next turn.
\<close>

fun start_shell :: "externals \<Rightarrow> state \<Rightarrow> input list \<Rightarrow> event list \<times> shell_result" where
  "start_shell E s [] = ([Prompt (conn_str (ctx_mem s))], Shell_returns (- 1) s [])"
| "start_shell E s ((line, mem) # rest) =
     (if hd (line @ [NUL]) = NL then emit [Prompt (conn_str (ctx_mem s))] (start_shell E s rest)
      else if mem = Strdup_fails then
        ([Prompt (conn_str (ctx_mem s)), Error_reported ''strdup''], Shell_returns 0 s rest)
      else
        case shell_token line of
          Inl f \<Rightarrow> ([Prompt (conn_str (ctx_mem s))], Shell_faults f)
        | Inr token \<Rightarrow>
            (case get_cmd token of
               None \<Rightarrow>
                 emit [Prompt (conn_str (ctx_mem s)), Unknown_command token] (start_shell E s rest)
             | Some cmd \<Rightarrow>
                 (case split_str (mem \<noteq> Malloc_fails) line of
                    Inl f \<Rightarrow> ([Prompt (conn_str (ctx_mem s))], Shell_faults f)
                  | Inr (n, argv') \<Rightarrow>
                      let s1 = s\<lparr>ctx_mem := (ctx_mem s)\<lparr>argc := n, argv := argv'\<rparr>\<rparr> in
                      if n = 0 then ([Prompt (conn_str (ctx_mem s))], Shell_returns 0 s1 rest)
                      else
                        (case argv' of
                           None \<Rightarrow> ([Prompt (conn_str (ctx_mem s))], Shell_faults Null_pointer)
                         | Some av \<Rightarrow>
                             (case execute_cmd E (execute cmd) s1 of
                                (out, Exits st) \<Rightarrow>
                                  (Prompt (conn_str (ctx_mem s)) # Invoked (execute cmd) av # out,
                                   Shell_exits st)
                              | (out, Returns ret s2) \<Rightarrow>
                                  emit (Prompt (conn_str (ctx_mem s)) # Invoked (execute cmd) av # out)
                                    (start_shell E (s2\<lparr>ctx_mem := (ctx_mem s2)\<lparr>argv := None\<rparr>\<rparr>)
                                       rest))))))"

subsection \<open>\<^verbatim>\<open>getopt_long\<close> and \<^verbatim>\<open>parse_options\<close>\<close>

definition EXIT_SUCCESS :: int where
  "EXIT_SUCCESS = 0"

definition EXIT_FAILURE :: int where
  "EXIT_FAILURE = 1"

datatype has_arg = No_argument | Required_argument

text \<open>The table \<^verbatim>\<open>long_options\<close>: name, argument, \<^verbatim>\<open>val\<close> (the flag is NULL).\<close>

definition long_options :: "(string \<times> has_arg \<times> char) list" where
  "long_options =
    [ (''debug'', No_argument, CHR ''d''),
      (''help'', No_argument, CHR ''x''),
      (''version'', No_argument, CHR ''v''),
      (''xlator-option'', Required_argument, CHR ''o'') ]"

text \<open>
  glibc's \<^verbatim>\<open>getopt_long\<close> for the option string \<^verbatim>\<open>"o:"\<close> and this table, with
  \<^verbatim>\<open>POSIXLY_CORRECT\<close> unset. A long option is found by its exact name, or by a prefix
  that only one name has. One call returns -1 (\<open>Getopt_end\<close>) or an option character,
  the index it stored through \<^verbatim>\<open>&option_index\<close> (only a long option that is found
  stores one) and \<^verbatim>\<open>optarg\<close>. Arguments that are no options are stepped over, and
  glibc moves them behind the options in \<^verbatim>\<open>argv\<close>: a call is described by what it
  returned, the arguments it stepped over, the arguments it took as the option, and the
  part of the argument vector it did not scan.
\<close>

datatype getopt = Getopt_end | Getopt_opt char "nat option" "string option"

record scan =
  scan_result :: getopt
  scan_skipped :: "string list"
  scan_taken :: "string list"
  scan_rest :: "string list"

definition match_long :: "string \<Rightarrow> nat option" where
  "match_long nm =
     (case filter (\<lambda>k. fst (long_options ! k) = nm) [0..<length long_options] of
        k # _ \<Rightarrow> Some k
      | [] \<Rightarrow>
          (case filter (\<lambda>k. take (length nm) (fst (long_options ! k)) = nm)
                  [0..<length long_options] of
             [k] \<Rightarrow> Some k
           | _ \<Rightarrow> None))"

definition long_option :: "string \<Rightarrow> string list \<Rightarrow> getopt \<times> string list" where
  "long_option body as =
     (let nm = takeWhile (\<lambda>c. c \<noteq> CHR ''='') body;
          has_eq = (length nm < length body);
          v = drop (Suc (length nm)) body
      in case match_long nm of
           None \<Rightarrow> (Getopt_opt (CHR ''?'') None None, as)
         | Some k \<Rightarrow>
             (case fst (snd (long_options ! k)) of
                No_argument \<Rightarrow>
                  if has_eq then (Getopt_opt (CHR ''?'') None None, as)
                  else (Getopt_opt (snd (snd (long_options ! k))) (Some k) None, as)
              | Required_argument \<Rightarrow>
                  if has_eq then (Getopt_opt (snd (snd (long_options ! k))) (Some k) (Some v), as)
                  else
                    (case as of
                       [] \<Rightarrow> (Getopt_opt (CHR ''?'') None None, [])
                     | b # bs \<Rightarrow>
                         (Getopt_opt (snd (snd (long_options ! k))) (Some k) (Some b), bs))))"

definition short_option :: "string \<Rightarrow> string list \<Rightarrow> getopt \<times> string list" where
  "short_option a as =
     (if a ! 1 = CHR ''o'' then
        (if 2 < length a then (Getopt_opt (CHR ''o'') None (Some (drop 2 a)), as)
         else
           (case as of
              [] \<Rightarrow> (Getopt_opt (CHR ''?'') None None, [])
            | b # bs \<Rightarrow> (Getopt_opt (CHR ''o'') None (Some b), bs)))
      else (Getopt_opt (CHR ''?'') None None, as))"

definition option_scan :: "string \<Rightarrow> string list \<Rightarrow> getopt \<times> string list \<Rightarrow> scan" where
  "option_scan a as r =
     \<lparr>scan_result = fst r, scan_skipped = [],
      scan_taken = take (Suc (length as) - length (snd r)) (a # as), scan_rest = snd r\<rparr>"

fun getopt_long :: "string list \<Rightarrow> scan" where
  "getopt_long [] =
     \<lparr>scan_result = Getopt_end, scan_skipped = [], scan_taken = [], scan_rest = []\<rparr>"
| "getopt_long (a # as) =
     (if a = ''--'' then
        \<lparr>scan_result = Getopt_end, scan_skipped = [], scan_taken = [a], scan_rest = as\<rparr>
      else if take 2 a = ''--'' then option_scan a as (long_option (drop 2 a) as)
      else if 2 \<le> length a \<and> hd a = CHR ''-'' then option_scan a as (short_option a as)
      else (getopt_long as)\<lparr>scan_skipped := a # scan_skipped (getopt_long as)\<rparr>)"

lemma long_option_length: "length (snd (long_option body as)) \<le> length as"
  by (cases as) (simp_all add: long_option_def Let_def split: option.split has_arg.split)

lemma short_option_length: "length (snd (short_option a as)) \<le> length as"
  by (cases as) (simp_all add: short_option_def)

lemma getopt_long_opt_length:
  "scan_result (getopt_long args) = Getopt_opt c li oa \<Longrightarrow>
   length (scan_rest (getopt_long args)) < length args"
proof (induction args)
  case Nil
  then show ?case by simp
next
  case (Cons a as)
  show ?case
  proof (cases "a = ''--''")
    case True
    with Cons.prems show ?thesis by simp
  next
    case False
    note not_end = this
    show ?thesis
    proof (cases "take 2 a = ''--''")
      case True
      with not_end long_option_length [of "drop 2 a" as] show ?thesis
        by (simp add: option_scan_def)
    next
      case False
      note not_long = this
      show ?thesis
      proof (cases "2 \<le> length a \<and> hd a = CHR ''-''")
        case True
        with not_end not_long short_option_length [of a as] show ?thesis
          by (simp add: option_scan_def)
      next
        case False
        with not_end not_long Cons.prems
        have "scan_result (getopt_long as) = Getopt_opt c li oa"
          by auto
        from Cons.IH [OF this] False not_end not_long show ?thesis by auto
      qed
    qed
  qed
qed

text \<open>
  The \<^verbatim>\<open>while (true)\<close> loop of \<^verbatim>\<open>parse_options\<close>, with the options struct and
  \<^verbatim>\<open>option_index\<close> as its state; \<open>Inl\<close> is the status of an \<^verbatim>\<open>exit\<close> (\<^verbatim>\<open>error\<close>
  with a non-zero status, \<^verbatim>\<open>usage\<close>). \<open>front\<close> and \<open>back\<close> are the options taken and
  the arguments stepped over so far; when \<^verbatim>\<open>getopt_long\<close> returns -1, the arguments
  after \<^verbatim>\<open>argv[0]\<close> stand in the order of the third component.
\<close>

function parse_loop ::
  "externals \<Rightarrow> string list \<Rightarrow> cli_options \<Rightarrow> nat \<Rightarrow> string list \<Rightarrow> string list \<Rightarrow>
   int + (cli_options \<times> nat \<times> string list)" where
  "parse_loop E args opts option_index front back =
     (case scan_result (getopt_long args) of
        Getopt_end \<Rightarrow>
          Inr (opts, option_index,
               front @ scan_taken (getopt_long args) @ back @ scan_skipped (getopt_long args)
                 @ scan_rest (getopt_long args))
      | Getopt_opt opt li optarg \<Rightarrow>
          (if opt = CHR ''d'' then
             parse_loop E (scan_rest (getopt_long args)) (opts\<lparr>debug := True\<rparr>)
               (case li of None \<Rightarrow> option_index | Some k \<Rightarrow> k)
               (front @ scan_taken (getopt_long args)) (back @ scan_skipped (getopt_long args))
           else if opt = CHR ''o'' then
             (case optarg of
                None \<Rightarrow> Inl EXIT_FAILURE
              | Some arg \<Rightarrow>
                  (case parse_xlator_option E arg of
                     None \<Rightarrow> Inl EXIT_FAILURE
                   | Some option \<Rightarrow>
                       (case append_xlator_option E (xlator_options opts) option of
                          None \<Rightarrow> Inl EXIT_FAILURE
                        | Some xs \<Rightarrow>
                            parse_loop E (scan_rest (getopt_long args)) (opts\<lparr>xlator_options := xs\<rparr>)
                              (case li of None \<Rightarrow> option_index | Some k \<Rightarrow> k)
                              (front @ scan_taken (getopt_long args))
                              (back @ scan_skipped (getopt_long args)))))
           else if opt = CHR ''h'' then Inl EXIT_SUCCESS
           else if opt = CHR ''v'' then Inl EXIT_SUCCESS
           else if opt = CHR ''x'' then Inl EXIT_SUCCESS
           else Inl EXIT_FAILURE))"
  by pat_completeness auto
termination
  by (relation "measure (\<lambda>(E, args, opts, oi, front, back). length args)")
    (simp_all add: getopt_long_opt_length)

declare parse_loop.simps [simp del]

text \<open>
  \<^verbatim>\<open>parse_options\<close>: the loop over \<^verbatim>\<open>argv[1..]\<close>, then the test
  \<^verbatim>\<open>argc - option_index >= 2\<close> that guards \<^verbatim>\<open>cli_connect\<close> and
  \<^verbatim>\<open>apply_xlator_options\<close>. \<open>Inl\<close> is the status of an \<^verbatim>\<open>exit\<close>. It is
  called once, from \<^verbatim>\<open>main\<close>, where \<^verbatim>\<open>ctx->argv\<close> is the argument vector of the
  process; \<^verbatim>\<open>getopt_long\<close> reorders that vector in place, so \<^verbatim>\<open>cli_connect\<close>
  finds the reordered one in the context.
\<close>

definition parse_options :: "externals \<Rightarrow> state \<Rightarrow> int + state" where
  "parse_options E s =
     (case parse_loop E (tl (map the (the (argv (ctx_mem s))))) (options_mem s) 0 [] [] of
        Inl st \<Rightarrow> Inl st
      | Inr (opts, option_index, args) \<Rightarrow>
          (let s1 = s\<lparr>ctx_mem := (ctx_mem s)
                        \<lparr>argv := Some (take 1 (the (argv (ctx_mem s))) @ map Some args)\<rparr>,
                      options_mem := opts\<rparr> in
           if argc (ctx_mem s) - int option_index \<ge> 2 then
             (case handlers E Cli_connect s1 of
                Exits st \<Rightarrow> Inl st
              | Returns r s2 \<Rightarrow>
                  if r = - 1 then Inl EXIT_FAILURE
                  else if apply_xlator_options E s2 = - 1 then Inl EXIT_FAILURE
                  else Inr s2)
           else Inr s1))"

subsection \<open>\<^verbatim>\<open>cleanup\<close>, \<^verbatim>\<open>sig_handler\<close> and \<^verbatim>\<open>main\<close>\<close>

text \<open>
  A release (\<^verbatim>\<open>free\<close>, \<^verbatim>\<open>gluster_url_free\<close>, \<^verbatim>\<open>glfs_fini\<close>) takes the address
  out of the live set; the release of an address that is not live is a fault.
\<close>

definition release :: "addr \<Rightarrow> state \<Rightarrow> fault + state" where
  "release a s = (if a \<in> live s then Inr (s\<lparr>live := live s - {a}\<rparr>) else Inl (Double_free a))"

definition release_if :: "addr option \<Rightarrow> state \<Rightarrow> fault + state" where
  "release_if p s = (case p of None \<Rightarrow> Inr s | Some a \<Rightarrow> release a s)"

definition and_then :: "fault + 'a \<Rightarrow> ('a \<Rightarrow> fault + 'b) \<Rightarrow> fault + 'b" where
  "and_then r f = (case r of Inl e \<Rightarrow> Inl e | Inr x \<Rightarrow> f x)"

text \<open>
  \<^verbatim>\<open>cleanup\<close> reads \<^verbatim>\<open>ctx->url\<close>, \<^verbatim>\<open>ctx->options\<close> and \<^verbatim>\<open>ctx->fs\<close>, releases
  each one that is not NULL, and frees \<^verbatim>\<open>ctx\<close>. It resets no pointer and tests no
  flag; the reads go through \<^verbatim>\<open>ctx\<close>, so they need the context block to be live.
  \<^verbatim>\<open>free_xlator_options\<close> and \<^verbatim>\<open>free (ctx->options)\<close> are the release of the
  options block.
\<close>

definition cleanup :: "state \<Rightarrow> fault + state" where
  "cleanup s =
     (if ctx s \<notin> live s then Inl Use_after_free
      else
        and_then (release_if (url (ctx_mem s)) s) (\<lambda>s1.
        and_then (release_if (options (ctx_mem s)) s1) (\<lambda>s2.
        and_then (release_if (fs (ctx_mem s)) s2) (\<lambda>s3.
        release (ctx s) s3))))"

definition SIGINT :: int where
  "SIGINT = 2"

datatype process = Running state | Exited int state | Crashed fault

definition sig_handler :: "int \<Rightarrow> state \<Rightarrow> process" where
  "sig_handler sig s =
     (if sig = SIGINT then
        (case cleanup s of
           Inl f \<Rightarrow> Crashed f
         | Inr s' \<Rightarrow> Exited EXIT_SUCCESS s')
      else Running s)"

text \<open>POSIX \<^verbatim>\<open>basename\<close> (\<^verbatim>\<open>libgen.h\<close>).\<close>

definition basename :: "string option \<Rightarrow> string" where
  "basename path =
     (case path of
        None \<Rightarrow> ''.''
      | Some p \<Rightarrow>
          if p = [] then ''.''
          else
            let q = rev (dropWhile (\<lambda>c. c = CHR ''/'') (rev p)) in
            if q = [] then ''/'' else rev (takeWhile (\<lambda>c. c \<noteq> CHR ''/'') (rev q)))"

text \<open>
  \<^verbatim>\<open>main\<close>. The context is block 1 and its options block 2. The result is what the
  shell printed and did, and how the process ended: by \<^verbatim>\<open>return ret\<close> from
  \<^verbatim>\<open>main\<close>, by an \<^verbatim>\<open>exit\<close>, or by a fault. \<^verbatim>\<open>start_shell\<close> is called twice, as in
  the source; the second call reads what the first left of the input.
\<close>

datatype main_result = Main_returns int | Main_exits int | Main_faults fault

definition initial_state :: "string list \<Rightarrow> state" where
  "initial_state av =
     \<lparr>ctx = 1,
      ctx_mem = \<lparr>argc = int (length av), argv = Some (map Some av), conn_str = None,
                 fs = None, options = Some 2, url = None, in_shell = False\<rparr>,
      options_mem = \<lparr>debug = False, xlator_options = []\<rparr>,
      live = {1, 2}\<rparr>"

definition finish :: "int \<Rightarrow> state \<Rightarrow> main_result" where
  "finish ret s =
     (case cleanup s of
        Inl f \<Rightarrow> Main_faults f
      | Inr s' \<Rightarrow> Main_returns (if ret = - 1 then EXIT_FAILURE else ret))"

definition main :: "externals \<Rightarrow> string list \<Rightarrow> input list \<Rightarrow> event list \<times> main_result" where
  "main E av stdin =
     (let s = initial_state av in
      case get_cmd (basename (case av of [] \<Rightarrow> None | a # _ \<Rightarrow> Some a)) of
        Some cmd \<Rightarrow>
          (case execute_cmd E (execute cmd) (s\<lparr>ctx_mem := (ctx_mem s)\<lparr>in_shell := False\<rparr>\<rparr>) of
             (out, Exits st) \<Rightarrow> (out, Main_exits st)
           | (out, Returns ret s1) \<Rightarrow> (out, finish ret s1))
      | None \<Rightarrow>
          (case parse_options E (s\<lparr>ctx_mem := (ctx_mem s)\<lparr>in_shell := True\<rparr>\<rparr>) of
             Inl st \<Rightarrow> ([], Main_exits st)
           | Inr s1 \<Rightarrow>
               (case start_shell E (s1\<lparr>ctx_mem := (ctx_mem s1)\<lparr>argc := 0, argv := None\<rparr>\<rparr>) stdin of
                  (out1, Shell_exits st) \<Rightarrow> (out1, Main_exits st)
                | (out1, Shell_faults f) \<Rightarrow> (out1, Main_faults f)
                | (out1, Shell_returns ret1 s2 rest) \<Rightarrow>
                    (case start_shell E s2 rest of
                       (out2, Shell_exits st) \<Rightarrow> (out1 @ out2, Main_exits st)
                     | (out2, Shell_faults f) \<Rightarrow> (out1 @ out2, Main_faults f)
                     | (out2, Shell_returns ret s3 rest') \<Rightarrow> (out1 @ out2, finish ret s3)))))"

subsection \<open>Stand-ins for the external functions\<close>

text \<open>
  To run the model on a concrete input, the functions of the other source files need
  values. These stand-ins are used for that alone: \<^verbatim>\<open>cli_connect\<close> opens handle 3,
  takes the last argument as connection string and returns 0; \<^verbatim>\<open>handle_quit\<close> calls
  \<^verbatim>\<open>exit (0)\<close>; every other handler returns 0; an xlator option is split at its first
  \<^verbatim>\<open>=\<close> and needs a key; appending and applying options succeed.
\<close>

definition stub_handlers :: "handler \<Rightarrow> state \<Rightarrow> handler_result" where
  "stub_handlers h s =
     (if h = Cli_connect then
        Returns 0
          (s\<lparr>ctx_mem := (ctx_mem s)
               \<lparr>conn_str := (case argv (ctx_mem s) of
                               None \<Rightarrow> None
                             | Some av \<Rightarrow> if av = [] then None else last av),
                fs := Some 3\<rparr>,
             live := insert 3 (live s)\<rparr>)
      else if h = Handle_quit then Exits 0
      else Returns 0 s)"

definition stub_externals :: externals where
  "stub_externals =
     \<lparr>handlers = stub_handlers,
      parse_xlator_option =
        (\<lambda>a. let k = takeWhile (\<lambda>c. c \<noteq> CHR ''='') a
             in if k = [] \<or> length k = length a then None
                else Some (k, drop (Suc (length k)) a)),
      append_xlator_option = (\<lambda>xs x. Some (xs @ [x])),
      apply_xlator_options = (\<lambda>s. 0)\<rparr>"

text \<open>The same, with every handler failing: each returns -1.\<close>

definition failing_externals :: externals where
  "failing_externals = stub_externals\<lparr>handlers := (\<lambda>h s. Returns (- 1) s)\<rparr>"

text \<open>
  The resources a context holds, and the states in which \<^verbatim>\<open>cleanup\<close> has something
  to release: the context block and the resources are live and pairwise different.
\<close>

definition resources :: "state \<Rightarrow> addr list" where
  "resources s =
     List.map_filter id [url (ctx_mem s), options (ctx_mem s), fs (ctx_mem s)]"

definition owns_resources :: "state \<Rightarrow> bool" where
  "owns_resources s \<longleftrightarrow>
     distinct (ctx s # resources s) \<and> set (ctx s # resources s) \<subseteq> live s"

subsection \<open>Facts about the registry\<close>

lemma of_char_eq_0_iff: "(of_char c :: int) = 0 \<longleftrightarrow> c = NUL"
proof -
  have "(of_char c :: int) = of_char NUL \<longleftrightarrow> c = NUL"
    by (simp only: of_char_eq_iff)
  then show ?thesis by (simp add: NUL_def)
qed

lemma strcmp_eq_0_iff:
  "is_cstring a \<Longrightarrow> is_cstring b \<Longrightarrow> strcmp a b = 0 \<longleftrightarrow> a = b"
proof (induction a b rule: strcmp.induct)
  case 1
  then show ?case by simp
next
  case (2 b bs)
  then show ?case by (auto simp: is_cstring_def of_char_eq_0_iff)
next
  case (3 a as)
  then show ?case by (auto simp: is_cstring_def of_char_eq_0_iff)
next
  case (4 a as b bs)
  then show ?case by (auto simp: is_cstring_def)
qed

lemma strcmp_refl: "strcmp a a = 0"
  by (induction a) simp_all

lemma take_cmds: "take NUM_CMDS cmds = cmds"
  by (simp add: NUM_CMDS_def cmds_def)

lemma get_cmd_loop_find:
  "is_cstring nm \<Longrightarrow>
   \<forall>c \<in> set cs. is_cstring (name c) \<and> (\<forall>a. cmd_alias c = Some a \<longrightarrow> is_cstring a) \<Longrightarrow>
   get_cmd_loop nm cs = find (\<lambda>c. nm = name c \<or> cmd_alias c = Some nm) cs"
proof (induction cs)
  case Nil
  then show ?case by simp
next
  case (Cons c cs)
  then show ?case
    by (cases "cmd_alias c") (auto simp: strcmp_eq_0_iff)
qed

lemma cmds_cstrings:
  "\<forall>c \<in> set cmds. is_cstring (name c) \<and> (\<forall>a. cmd_alias c = Some a \<longrightarrow> is_cstring a)"
  by (simp add: cmds_def is_cstring_def NUL_def)

lemma get_cmd_find:
  "is_cstring nm \<Longrightarrow> get_cmd nm = find (\<lambda>c. nm = name c \<or> cmd_alias c = Some nm) cmds"
  by (simp add: get_cmd_def take_cmds get_cmd_loop_find cmds_cstrings)

lemma get_cmd_entries:
  "\<forall>e \<in> set cmds.
     get_cmd (name e) = Some e \<and> (\<forall>a. cmd_alias e = Some a \<longrightarrow> get_cmd a = Some e)"
  by (simp add: get_cmd_def NUM_CMDS_def cmds_def)

text \<open>
  C8. Every entry of the registry is found under its primary name and, when it has an
  alias, under the alias, and both lookups return that same entry. A lookup compares whole
  strings byte by byte (so it is case-sensitive and matches no prefix): for every C string
  it returns the first entry of the table, in table order, whose name or alias equals it.
\<close>

theorem get_cmd_registry:
  "(\<forall>e \<in> set cmds.
      get_cmd (name e) = Some e \<and> (\<forall>a. cmd_alias e = Some a \<longrightarrow> get_cmd a = Some e))
   \<and> (\<forall>nm. is_cstring nm \<longrightarrow>
         get_cmd nm = find (\<lambda>c. nm = name c \<or> cmd_alias c = Some nm) cmds)"
  using get_cmd_entries get_cmd_find by blast

theorem get_cmd_registry_witness:
  "get_cmd ''ls'' = Some \<lparr>cmd_alias = Some ''gfls'', name = ''ls'', execute = Do_ls\<rparr>
   \<and> get_cmd ''gfls'' = Some \<lparr>cmd_alias = Some ''gfls'', name = ''ls'', execute = Do_ls\<rparr>
   \<and> get_cmd ''LS'' = None \<and> get_cmd ''l'' = None \<and> get_cmd ''lsx'' = None"
proof -
  let ?e = "\<lparr>cmd_alias = Some ''gfls'', name = ''ls'', execute = Do_ls\<rparr>"
  have mem: "?e \<in> set cmds"
    by (simp add: cmds_def)
  have entries: "\<forall>e \<in> set cmds.
      get_cmd (name e) = Some e \<and> (\<forall>a. cmd_alias e = Some a \<longrightarrow> get_cmd a = Some e)"
    using get_cmd_registry by (rule conjunct1)
  have finds: "\<forall>nm. is_cstring nm \<longrightarrow>
      get_cmd nm = find (\<lambda>c. nm = name c \<or> cmd_alias c = Some nm) cmds"
    using get_cmd_registry by (rule conjunct2)
  have "get_cmd ''ls'' = Some ?e" and "get_cmd ''gfls'' = Some ?e"
    using bspec [OF entries mem] by simp_all
  moreover have "get_cmd ''LS'' = None" and "get_cmd ''l'' = None" and "get_cmd ''lsx'' = None"
    using finds by (simp_all add: is_cstring_def NUL_def cmds_def)
  ultimately show ?thesis by simp
qed

text \<open>The lookup of \<^verbatim>\<open>exit\<close> returns NULL.\<close>

theorem get_cmd_exit_not_registered: "get_cmd ''exit'' = None"
  by (simp add: get_cmd_def NUM_CMDS_def cmds_def)

text \<open>
  C4, as the table has it: \<^verbatim>\<open>quit\<close> is registered, without an alias, and its handler
  is \<^verbatim>\<open>handle_quit\<close>; \<^verbatim>\<open>exit\<close> is no name and no alias of any entry, so its
  lookup returns NULL.
\<close>

theorem get_cmd_quit_only:
  "get_cmd ''quit'' = Some \<lparr>cmd_alias = None, name = ''quit'', execute = Handle_quit\<rparr>
   \<and> get_cmd ''exit'' = None
   \<and> (\<forall>e \<in> set cmds. name e \<noteq> ''exit'' \<and> cmd_alias e \<noteq> Some ''exit'')"
  by (simp add: get_cmd_def NUM_CMDS_def cmds_def)

theorem get_cmd_quit_only_witness:
  "name \<lparr>cmd_alias = None, name = ''quit'', execute = Handle_quit\<rparr> \<noteq> ''exit''
   \<and> get_cmd ''quit'' = Some \<lparr>cmd_alias = None, name = ''quit'', execute = Handle_quit\<rparr>"
proof -
  let ?e = "\<lparr>cmd_alias = None, name = ''quit'', execute = Handle_quit\<rparr>"
  have mem: "?e \<in> set cmds"
    by (simp add: cmds_def)
  have "\<forall>e \<in> set cmds. name e \<noteq> ''exit'' \<and> cmd_alias e \<noteq> Some ''exit''"
    using get_cmd_quit_only by blast
  from bspec [OF this mem] have "name ?e \<noteq> ''exit''" by blast
  moreover have "get_cmd ''quit'' = Some ?e"
    using get_cmd_quit_only by blast
  ultimately show ?thesis by blast
qed

subsection \<open>Facts about \<^verbatim>\<open>split_str\<close>\<close>

text \<open>The number of spaces of the C string at the start of a buffer.\<close>

definition spaces :: "char list \<Rightarrow> nat" where
  "spaces buf = length (filter (\<lambda>c. c = SP) (takeWhile (\<lambda>c. c \<noteq> NUL) buf))"

lemma count_args_spaces:
  "k \<le> INT_MAX \<Longrightarrow>
   count_args buf k = (if k + spaces buf \<le> INT_MAX then Inr (k + spaces buf) else Inl Int_overflow)"
proof (induction buf arbitrary: k)
  case Nil
  then show ?case by (simp add: spaces_def)
next
  case (Cons c cs)
  show ?case
  proof (cases "c = NUL")
    case True
    with Cons.prems show ?thesis by (simp add: spaces_def)
  next
    case not_nul: False
    show ?thesis
    proof (cases "c = SP")
      case True
      have sp: "spaces (c # cs) = Suc (spaces cs)"
        using True not_nul by (simp add: spaces_def)
      show ?thesis
      proof (cases "INT_MAX \<le> k")
        case True
        with \<open>c = SP\<close> not_nul sp show ?thesis by simp
      next
        case False
        then have "Suc k \<le> INT_MAX" by simp
        from Cons.IH [OF this] False \<open>c = SP\<close> not_nul sp show ?thesis by simp
      qed
    next
      case False
      have "spaces (c # cs) = spaces cs"
        using False not_nul by (simp add: spaces_def)
      with Cons.IH [OF Cons.prems] False not_nul show ?thesis by simp
    qed
  qed
qed

lemma fill_args_length: "fill_args n buf = Inr toks \<Longrightarrow> length toks \<le> n"
proof (induction n buf arbitrary: toks rule: fill_args.induct)
  case (1 line)
  then show ?case by simp
next
  case (2 n)
  then show ?case by simp
next
  case (3 n c cs)
  show ?case
  proof (cases "c = NUL")
    case True
    with 3 show ?thesis by simp
  next
    case False
    with 3 show ?thesis
      by (auto simp: Let_def split: sum.splits)
  qed
qed

lemma chars_distinct: "SP \<noteq> NUL" "NL \<noteq> NUL" "SP \<noteq> NL"
  by (simp_all add: SP_def NUL_def NL_def)

lemma fill_args_no_fault:
  "NUL \<in> set buf \<Longrightarrow> n \<le> Suc (spaces buf) \<Longrightarrow> \<exists>toks. fill_args n buf = Inr toks"
proof (induction n buf rule: fill_args.induct)
  case (1 line)
  then show ?case by simp
next
  case (2 n)
  then show ?case by simp
next
  case (3 n c cs)
  show ?case
  proof (cases "c = NUL")
    case True
    then show ?thesis by simp
  next
    case False
    define tok where "tok = takeWhile (\<lambda>x. x \<noteq> SP \<and> x \<noteq> NL \<and> x \<noteq> NUL) (c # cs)"
    define rest where "rest = dropWhile (\<lambda>x. x \<noteq> SP \<and> x \<noteq> NL \<and> x \<noteq> NUL) (c # cs)"
    have split: "c # cs = tok @ rest"
      by (simp add: tok_def rest_def)
    have tok_clean: "\<forall>x \<in> set tok. x \<noteq> SP \<and> x \<noteq> NL \<and> x \<noteq> NUL"
      unfolding tok_def by (auto dest: set_takeWhileD)
    have "rest \<noteq> []"
      using "3.prems"(1) tok_clean split by (metis append_Nil2)
    then obtain d rest' where rest: "rest = d # rest'"
      by (cases rest) auto
    have d: "d = SP \<or> d = NL \<or> d = NUL"
      using rest unfolding rest_def by (metis (mono_tags, lifting) hd_dropWhile list.sel(1) list.discI)
    have dropped: "drop (Suc (length tok)) (c # cs) = rest'"
      by (simp only: split rest) simp
    have tw: "takeWhile (\<lambda>c. c \<noteq> NUL) (c # cs) = tok @ takeWhile (\<lambda>c. c \<noteq> NUL) rest"
      using tok_clean by (simp only: split) (simp add: takeWhile_append2)
    have no_sp: "filter (\<lambda>c. c = SP) tok = []"
      using tok_clean by (simp add: filter_empty_conv)
    have sp: "spaces (c # cs) = spaces rest"
      unfolding spaces_def tw using no_sp by simp
    show ?thesis
    proof (cases "d = NUL")
      case True
      then have "spaces rest = 0" by (simp add: spaces_def rest)
      with sp "3.prems"(2) have "n = 0" by simp
      with False show ?thesis by (simp add: Let_def)
    next
      case dn: False
      from dn have sr: "spaces rest' \<le> spaces rest \<and> spaces rest \<le> Suc (spaces rest')"
        by (simp add: spaces_def rest)
      have nul: "NUL \<in> set rest'"
        using "3.prems"(1) tok_clean dn unfolding split rest by auto
      have le: "n \<le> Suc (spaces rest')"
        using sr sp "3.prems"(2) by simp
      have "\<exists>toks. fill_args n (drop (Suc (length tok)) (c # cs)) = Inr toks"
        using "3.IH" [OF False tok_def] nul le dropped by simp
      then show ?thesis
        using False by (auto simp: Let_def tok_def)
    qed
  qed
qed

subsection \<open>Facts about \<^verbatim>\<open>start_shell\<close>\<close>

lemma split_str_ok:
  assumes "spaces (line @ [NUL]) < INT_MAX"
  shows "\<exists>av. split_str True line = Inr (int (Suc (spaces (line @ [NUL]))), Some av)
        \<and> length av = Suc (spaces (line @ [NUL]))"
proof -
  have cnt: "count_args (line @ [NUL]) 0 = Inr (spaces (line @ [NUL]))"
    using count_args_spaces [of 0 "line @ [NUL]"] assms by simp
  have "NUL \<in> set (line @ [NUL])" by simp
  then obtain toks where toks: "fill_args (Suc (spaces (line @ [NUL]))) (line @ [NUL]) = Inr toks"
    using fill_args_no_fault [of "line @ [NUL]" "Suc (spaces (line @ [NUL]))"] by blast
  from fill_args_length [OF this] have "length toks \<le> Suc (spaces (line @ [NUL]))" .
  with toks cnt assms show ?thesis
    by (simp add: split_str_def Let_def)
qed

lemma split_str_no_memory:
  "spaces (line @ [NUL]) < INT_MAX \<Longrightarrow>
   split_str False line = Inr (int (Suc (spaces (line @ [NUL]))), None)"
  using count_args_spaces [of 0 "line @ [NUL]"] by (simp add: split_str_def Let_def)

lemma split_str_overflow:
  "INT_MAX \<le> spaces (line @ [NUL]) \<Longrightarrow> split_str malloc_ok line = Inl Int_overflow"
  using count_args_spaces [of 0 "line @ [NUL]"] by (simp add: split_str_def Let_def)

lemma split_str_argc:
  "split_str malloc_ok line = Inr (n, a) \<Longrightarrow>
   n = int (Suc (spaces (line @ [NUL]))) \<and> spaces (line @ [NUL]) < INT_MAX"
proof (cases "spaces (line @ [NUL]) < INT_MAX")
  case True
  assume r: "split_str malloc_ok line = Inr (n, a)"
  show ?thesis
  proof (cases malloc_ok)
    case True
    with split_str_ok [OF \<open>spaces (line @ [NUL]) < INT_MAX\<close>] r show ?thesis
      using \<open>spaces (line @ [NUL]) < INT_MAX\<close> by auto
  next
    case False
    with split_str_no_memory [OF \<open>spaces (line @ [NUL]) < INT_MAX\<close>] r show ?thesis
      using \<open>spaces (line @ [NUL]) < INT_MAX\<close> by auto
  qed
next
  case False
  assume "split_str malloc_ok line = Inr (n, a)"
  with split_str_overflow [of line malloc_ok] False show ?thesis by simp
qed

text \<open>One turn of the loop, branch by branch.\<close>

lemma step_blank:
  "hd (line @ [NUL]) = NL \<Longrightarrow>
   start_shell E s ((line, mem) # rest) =
     emit [Prompt (conn_str (ctx_mem s))] (start_shell E s rest)"
  by simp

lemma step_strdup:
  "hd (line @ [NUL]) \<noteq> NL \<Longrightarrow>
   start_shell E s ((line, Strdup_fails) # rest) =
     ([Prompt (conn_str (ctx_mem s)), Error_reported ''strdup''], Shell_returns 0 s rest)"
  by simp

lemma step_fault:
  "hd (line @ [NUL]) \<noteq> NL \<Longrightarrow> mem \<noteq> Strdup_fails \<Longrightarrow> shell_token line = Inl f \<Longrightarrow>
   start_shell E s ((line, mem) # rest) = ([Prompt (conn_str (ctx_mem s))], Shell_faults f)"
  by simp

lemma step_unknown:
  "hd (line @ [NUL]) \<noteq> NL \<Longrightarrow> mem \<noteq> Strdup_fails \<Longrightarrow> shell_token line = Inr token \<Longrightarrow>
   get_cmd token = None \<Longrightarrow>
   start_shell E s ((line, mem) # rest) =
     emit [Prompt (conn_str (ctx_mem s)), Unknown_command token] (start_shell E s rest)"
  by simp

lemma step_overflow:
  "hd (line @ [NUL]) \<noteq> NL \<Longrightarrow> mem \<noteq> Strdup_fails \<Longrightarrow> shell_token line = Inr token \<Longrightarrow>
   get_cmd token = Some cmd \<Longrightarrow> INT_MAX \<le> spaces (line @ [NUL]) \<Longrightarrow>
   start_shell E s ((line, mem) # rest) =
     ([Prompt (conn_str (ctx_mem s))], Shell_faults Int_overflow)"
  by (simp add: split_str_overflow)

lemma step_malloc:
  "hd (line @ [NUL]) \<noteq> NL \<Longrightarrow> shell_token line = Inr token \<Longrightarrow>
   get_cmd token = Some cmd \<Longrightarrow> spaces (line @ [NUL]) < INT_MAX \<Longrightarrow>
   start_shell E s ((line, Malloc_fails) # rest) =
     ([Prompt (conn_str (ctx_mem s))], Shell_faults Null_pointer)"
  by (simp add: split_str_no_memory)

lemma step_exits:
  "hd (line @ [NUL]) \<noteq> NL \<Longrightarrow> shell_token line = Inr token \<Longrightarrow> get_cmd token = Some cmd \<Longrightarrow>
   split_str True line = Inr (n, Some av) \<Longrightarrow>
   execute_cmd E (execute cmd) (s\<lparr>ctx_mem := (ctx_mem s)\<lparr>argc := n, argv := Some av\<rparr>\<rparr>) = (out, Exits st) \<Longrightarrow>
   start_shell E s ((line, Alloc_ok) # rest) =
     (Prompt (conn_str (ctx_mem s)) # Invoked (execute cmd) av # out, Shell_exits st)"
  using split_str_argc [of True line n "Some av"] by auto

lemma step_returns:
  "hd (line @ [NUL]) \<noteq> NL \<Longrightarrow> shell_token line = Inr token \<Longrightarrow> get_cmd token = Some cmd \<Longrightarrow>
   split_str True line = Inr (n, Some av) \<Longrightarrow>
   execute_cmd E (execute cmd) (s\<lparr>ctx_mem := (ctx_mem s)\<lparr>argc := n, argv := Some av\<rparr>\<rparr>) = (out, Returns ret s2) \<Longrightarrow>
   start_shell E s ((line, Alloc_ok) # rest) =
     emit (Prompt (conn_str (ctx_mem s)) # Invoked (execute cmd) av # out)
       (start_shell E (s2\<lparr>ctx_mem := (ctx_mem s2)\<lparr>argv := None\<rparr>\<rparr>) rest)"
  using split_str_argc [of True line n "Some av"] by auto

lemma snd_emit: "snd (emit es r) = snd r"
  by (simp add: emit_def)

lemma fst_emit: "fst (emit es r) = es @ fst r"
  by (simp add: emit_def)


text \<open>
  The loop is left by \<^verbatim>\<open>return\<close> in two ways: with -1 at the end of the input, and
  with 0 when \<^verbatim>\<open>strdup\<close> fails; the test \<^verbatim>\<open>argc == 0\<close> never holds.
\<close>

lemma start_shell_returns:
  "snd (start_shell E s ins) = Shell_returns r s' rest \<Longrightarrow>
   ((r = - 1 \<and> rest = []) \<or> (r = 0 \<and> (\<exists>line. (line, Strdup_fails) \<in> set ins)))
   \<and> set rest \<subseteq> set ins"
proof (induction ins arbitrary: s)
  case Nil
  then show ?case by simp
next
  case (Cons x ins)
  obtain line mem where x: "x = (line, mem)" by (cases x)
  note prem = Cons.prems [unfolded x]
  have IH: "\<And>s0. snd (start_shell E s0 ins) = Shell_returns r s' rest \<Longrightarrow> ?case"
    using Cons.IH by (auto simp: x)
  show ?case
  proof (cases "hd (line @ [NUL]) = NL")
    case True
    with prem have "snd (start_shell E s ins) = Shell_returns r s' rest"
      using step_blank [OF True, of E s mem ins] by (simp add: snd_emit del: start_shell.simps)
    then show ?thesis by (rule IH)
  next
    case not_blank: False
    show ?thesis
    proof (cases "mem = Strdup_fails")
      case True
      with prem step_strdup [OF not_blank, of E s ins] show ?thesis
        by (auto simp: x simp del: start_shell.simps)
    next
      case dup: False
      show ?thesis
      proof (cases "shell_token line")
        case (Inl f)
        with prem step_fault [OF not_blank dup Inl, of E s ins] show ?thesis
          by (simp del: start_shell.simps)
      next
        case (Inr token)
        show ?thesis
        proof (cases "get_cmd token")
          case None
          with prem have "snd (start_shell E s ins) = Shell_returns r s' rest"
            using step_unknown [OF not_blank dup Inr None, of E s ins]
            by (simp add: snd_emit del: start_shell.simps)
          then show ?thesis by (rule IH)
        next
          case (Some cmd)
          show ?thesis
          proof (cases "spaces (line @ [NUL]) < INT_MAX")
            case False
            then have "INT_MAX \<le> spaces (line @ [NUL])" by simp
            from step_overflow [OF not_blank dup Inr Some this, of E s ins] prem show ?thesis
              by (simp del: start_shell.simps)
          next
            case small: True
            show ?thesis
            proof (cases mem)
              case Strdup_fails
              with dup show ?thesis by simp
            next
              case Malloc_fails
              with step_malloc [OF not_blank Inr Some small, of E s ins] prem show ?thesis
                by (simp del: start_shell.simps)
            next
              case Alloc_ok
              obtain av where sp: "split_str True line =
                  Inr (int (Suc (spaces (line @ [NUL]))), Some av)"
                using split_str_ok [OF small] by blast
              let ?s1 = "s\<lparr>ctx_mem := (ctx_mem s)
                  \<lparr>argc := int (Suc (spaces (line @ [NUL]))), argv := Some av\<rparr>\<rparr>"
              obtain out hr where ex: "execute_cmd E (execute cmd) ?s1 = (out, hr)"
                by (cases "execute_cmd E (execute cmd) ?s1") blast
              show ?thesis
              proof (cases hr)
                case (Returns ret s2)
                with ex have ex': "execute_cmd E (execute cmd) ?s1 = (out, Returns ret s2)"
                  by simp
                have "snd (start_shell E (s2\<lparr>ctx_mem := (ctx_mem s2)\<lparr>argv := None\<rparr>\<rparr>) ins)
                    = Shell_returns r s' rest"
                  using step_returns [OF not_blank Inr Some sp ex', of ins] prem Alloc_ok
                  by (simp add: snd_emit del: start_shell.simps)
                then show ?thesis by (rule IH)
              next
                case (Exits st)
                with ex have ex': "execute_cmd E (execute cmd) ?s1 = (out, Exits st)"
                  by simp
                show ?thesis
                  using step_exits [OF not_blank Inr Some sp ex', of ins] prem Alloc_ok
                  by (simp del: start_shell.simps)
              qed
            qed
          qed
        qed
      qed
    qed
  qed
qed


subsection \<open>Running the model\<close>

text \<open>The loop of \<^verbatim>\<open>trim\<close>, one step at a time.\<close>

lemma trim_loop_outside:
  "length buf \<le> (off + i) mod 2 ^ 64 \<Longrightarrow> trim_loop buf off i = Inl (Read_outside i)"
  by (subst trim_loop.simps) simp

lemma trim_loop_space:
  "(off + i) mod 2 ^ 64 < length buf \<Longrightarrow> isspace (buf ! ((off + i) mod 2 ^ 64)) \<Longrightarrow>
   trim_loop buf off i = trim_loop (buf[(off + i) mod 2 ^ 64 := NUL]) off (size_dec i)"
  by (subst trim_loop.simps) simp

lemma trim_loop_stop:
  "(off + i) mod 2 ^ 64 < length buf \<Longrightarrow> \<not> isspace (buf ! ((off + i) mod 2 ^ 64)) \<Longrightarrow>
   trim_loop buf off i = Inr buf"
  by (subst trim_loop.simps) simp

lemmas token_eval = shell_token_def cstr_def TAB_def NL_def NUL_def SP_def strtok_r_def trim_def
  strlen_def isspace_def split_str_def INT_MAX_def size_dec_def trim_loop_outside trim_loop_space
  trim_loop_stop

lemmas registry_eval = get_cmd_def NUM_CMDS_def cmds_def

lemmas cleanup_eval = finish_def cleanup_def release_if_def release_def and_then_def

lemmas main_eval = main_def initial_state_def basename_def registry_eval parse_options_def
  parse_loop.simps cleanup_eval EXIT_FAILURE_def stub_externals_def stub_handlers_def token_eval
  execute_cmd_def shell_usage_def emit_def

subsection \<open>The exit status after end-of-input\<close>

lemma finish_status:
  "finish ret s = Main_returns st \<Longrightarrow> st = (if ret = - 1 then EXIT_FAILURE else ret)"
  by (auto simp: finish_def split: sum.splits)

lemma main_shell_status:
  assumes shell: "get_cmd (basename (case av of [] \<Rightarrow> None | a # _ \<Rightarrow> Some a)) = None"
    and ret: "snd (main E av stdin) = Main_returns st"
  shows "st = EXIT_FAILURE \<or> (st = 0 \<and> (\<exists>line. (line, Strdup_fails) \<in> set stdin))"
proof -
  let ?s = "(initial_state av)\<lparr>ctx_mem := (ctx_mem (initial_state av))\<lparr>in_shell := True\<rparr>\<rparr>"
  show ?thesis
  proof (cases "parse_options E ?s")
    case (Inl x)
    with shell ret show ?thesis by (simp add: main_def Let_def)
  next
    case (Inr s1)
    let ?s1 = "s1\<lparr>ctx_mem := (ctx_mem s1)\<lparr>argc := 0, argv := None\<rparr>\<rparr>"
    obtain out1 r1 where r1: "start_shell E ?s1 stdin = (out1, r1)"
      by (cases "start_shell E ?s1 stdin") blast
    show ?thesis
    proof (cases r1)
      case (Shell_returns ret1 s2 rest)
      with r1 have sub: "set rest \<subseteq> set stdin"
        using start_shell_returns [of E ?s1 stdin ret1 s2 rest] by simp
      obtain out2 r2 where r2: "start_shell E s2 rest = (out2, r2)"
        by (cases "start_shell E s2 rest") blast
      show ?thesis
      proof (cases r2)
        case second: (Shell_returns ret2 s3 rest')
        from r2 second have cls: "ret2 = - 1 \<or> (ret2 = 0 \<and> (\<exists>line. (line, Strdup_fails) \<in> set rest))"
          using start_shell_returns [of E s2 rest ret2 s3 rest'] by auto
        from shell ret Inr r1 Shell_returns r2 second have "finish ret2 s3 = Main_returns st"
          by (simp add: main_def Let_def)
        from finish_status [OF this] cls sub show ?thesis by auto
      next
        case (Shell_exits x)
        with shell ret Inr r1 Shell_returns r2 show ?thesis by (simp add: main_def Let_def)
      next
        case (Shell_faults x)
        with shell ret Inr r1 Shell_returns r2 show ?thesis by (simp add: main_def Let_def)
      qed
    next
      case (Shell_exits x)
      with shell ret Inr r1 show ?thesis by (simp add: main_def Let_def)
    next
      case (Shell_faults x)
      with shell ret Inr r1 show ?thesis by (simp add: main_def Let_def)
    qed
  qed
qed

text \<open>
  C2, as the code has it. At the end of the input \<^verbatim>\<open>getline\<close> returns -1 and
  \<^verbatim>\<open>start_shell\<close> returns \<^verbatim>\<open>ret = -1\<close>; whenever it returns, it is with -1 and
  the input used up, or with 0 after a failed \<^verbatim>\<open>strdup\<close>. \<^verbatim>\<open>main\<close> maps -1 to
  \<^verbatim>\<open>EXIT_FAILURE\<close>. So a shell-mode run of \<^verbatim>\<open>main\<close> that ends by \<^verbatim>\<open>return\<close>
  has exit status \<^verbatim>\<open>EXIT_FAILURE\<close>, not 0, unless a \<^verbatim>\<open>strdup\<close> failed: a session
  ended by end-of-input exits with 1.
\<close>

theorem shell_eof_exit_status:
  "start_shell E s [] = ([Prompt (conn_str (ctx_mem s))], Shell_returns (- 1) s [])
   \<and> (snd (start_shell E s ins) = Shell_returns r s' rest \<longrightarrow>
        (r = - 1 \<and> rest = []) \<or> (r = 0 \<and> (\<exists>line. (line, Strdup_fails) \<in> set ins)))
   \<and> (finish (- 1) s = Main_returns st' \<longrightarrow> st' = EXIT_FAILURE)
   \<and> (get_cmd (basename (case av of [] \<Rightarrow> None | a # _ \<Rightarrow> Some a)) = None \<longrightarrow>
        snd (main E av stdin) = Main_returns st \<longrightarrow>
        st = EXIT_FAILURE \<or> (st = 0 \<and> (\<exists>line. (line, Strdup_fails) \<in> set stdin)))"
  using start_shell_returns [of E s ins r s' rest] main_shell_status [of av E stdin st]
    finish_status [of "- 1" s st']
  by (intro conjI impI) simp_all

text \<open>
  A session whose input is empty: two prompts (\<^verbatim>\<open>start_shell\<close> is called twice), and
  \<^verbatim>\<open>main\<close> returns 1.
\<close>

theorem eof_exits_with_failure:
  "main stub_externals [''gfcli''] [] = ([Prompt None, Prompt None], Main_returns 1)"
  by (simp add: main_eval)

lemma main_help_session:
  "main stub_externals [''gfcli''] [(''help\<newline>'', Alloc_ok)] =
     ([Prompt None, Invoked Shell_usage [Some ''help''], Printed shell_usage_text, Prompt None,
       Prompt None], Main_returns 1)"
  by (simp add: main_eval)

text \<open>The other way out of the loop: \<^verbatim>\<open>strdup\<close> fails in both calls.\<close>

lemma main_strdup_failure:
  "main stub_externals [''gfcli''] [(''ls\<newline>'', Strdup_fails), (''ls\<newline>'', Strdup_fails)] =
     ([Prompt None, Error_reported ''strdup'', Prompt None, Error_reported ''strdup''],
      Main_returns 0)"
  by (simp add: main_eval)

theorem shell_eof_exit_status_witness:
  "get_cmd (basename (Some ''gfcli'')) = None
   \<and> snd (main stub_externals [''gfcli''] [(''help\<newline>'', Alloc_ok)]) = Main_returns EXIT_FAILURE
   \<and> EXIT_FAILURE = 1"
proof -
  let ?in = "[(''help\<newline>'', Alloc_ok)]"
  have shell: "get_cmd (basename (case [''gfcli''] of [] \<Rightarrow> None | a # _ \<Rightarrow> Some a)) = None"
    by (simp add: basename_def registry_eval)
  have run: "snd (main stub_externals [''gfcli''] ?in) = Main_returns 1"
    by (simp add: main_help_session)
  have "(1 :: int) = EXIT_FAILURE \<or>
      ((1 :: int) = 0 \<and> (\<exists>line. (line, Strdup_fails) \<in> set ?in))"
    using shell_eof_exit_status [of stub_externals "initial_state []" "[]" 0 "initial_state []" "[]"
        0 "[''gfcli'']" ?in 1] shell run
    by blast
  then have "(1 :: int) = EXIT_FAILURE" by simp
  with shell run show ?thesis by simp
qed

subsection \<open>Sessions that end by a fault\<close>

text \<open>
  C3 fails on the code. A failing handler does not end the session: after \<^verbatim>\<open>ls\<close>
  has returned -1 the prompt is printed again. But the line of a tab and a newline that
  follows ends it, by the read of \<^verbatim>\<open>trim\<close> before its buffer, and the third line is
  never read. A line that begins with a NUL byte ends it at once: \<^verbatim>\<open>strtok_r\<close>
  returns NULL and \<^verbatim>\<open>trim\<close> calls \<^verbatim>\<open>strlen\<close> on it.
\<close>

theorem session_ends_by_fault:
  "start_shell failing_externals (initial_state [''gfcli''])
     [(''ls\<newline>'', Alloc_ok), ([TAB, NL], Alloc_ok), (''ls\<newline>'', Alloc_ok)] =
     ([Prompt None, Invoked Do_ls [Some ''ls''], Prompt None],
      Shell_faults (Read_outside (2 ^ 64 - 1)))
   \<and> start_shell failing_externals (initial_state [''gfcli''])
     [([NUL, NL], Alloc_ok), (''ls\<newline>'', Alloc_ok)] =
     ([Prompt None], Shell_faults Null_pointer)"
  by (simp add: token_eval registry_eval execute_cmd_def emit_def failing_externals_def
      stub_externals_def initial_state_def)

subsection \<open>The \<^verbatim>\<open>mv\<close> entry\<close>

text \<open>
  C10. \<^verbatim>\<open>mv\<close> and \<^verbatim>\<open>gfmv\<close> are found in the registry, as the entry whose handler
  is \<^verbatim>\<open>not_implemented\<close>, while the list \<^verbatim>\<open>shell_usage\<close> prints has no line for
  \<^verbatim>\<open>mv\<close>. The line \<^verbatim>\<open>mv\<close> at the prompt, in a turn whose allocations succeed,
  calls that handler with \<^verbatim>\<open>argv = {"mv"}\<close> and reports no unknown command.
\<close>

theorem mv_dispatches_not_implemented:
  "get_cmd ''mv'' = Some \<lparr>cmd_alias = Some ''gfmv'', name = ''mv'', execute = Not_implemented\<rparr>
   \<and> get_cmd ''gfmv'' = Some \<lparr>cmd_alias = Some ''gfmv'', name = ''mv'', execute = Not_implemented\<rparr>
   \<and> ''* mv'' \<notin> set (fst shell_usage)
   \<and> start_shell E s ((''mv\<newline>'', Alloc_ok) # rest) =
       (case handlers E Not_implemented (s\<lparr>ctx_mem := (ctx_mem s)\<lparr>argc := 1, argv := Some [Some ''mv'']\<rparr>\<rparr>) of
          Returns ret s2 \<Rightarrow>
            emit [Prompt (conn_str (ctx_mem s)), Invoked Not_implemented [Some ''mv'']]
              (start_shell E (s2\<lparr>ctx_mem := (ctx_mem s2)\<lparr>argv := None\<rparr>\<rparr>) rest)
        | Exits st \<Rightarrow>
            ([Prompt (conn_str (ctx_mem s)), Invoked Not_implemented [Some ''mv'']], Shell_exits st))"
  by (simp add: token_eval registry_eval execute_cmd_def shell_usage_def shell_usage_text_def
      split: handler_result.split)

theorem mv_dispatches_not_implemented_witness:
  "start_shell stub_externals (initial_state [''gfcli'']) [(''mv\<newline>'', Alloc_ok)] =
     ([Prompt None, Invoked Not_implemented [Some ''mv''], Prompt None],
      Shell_returns (- 1)
        ((initial_state [''gfcli''])\<lparr>ctx_mem := (ctx_mem (initial_state [''gfcli'']))\<lparr>argc := 1, argv := None\<rparr>\<rparr>) [])"
  using mv_dispatches_not_implemented [of stub_externals "initial_state [''gfcli'']" "[]"]
  by (simp add: stub_externals_def stub_handlers_def emit_def initial_state_def)

subsection \<open>\<^verbatim>\<open>cleanup\<close>\<close>

lemma cleanup_owned:
  "owns_resources s \<Longrightarrow> cleanup s = Inr (s\<lparr>live := live s - set (ctx s # resources s)\<rparr>)"
  by (cases "url (ctx_mem s)"; cases "options (ctx_mem s)"; cases "fs (ctx_mem s)")
    (auto simp: owns_resources_def resources_def List.map_filter_simps cleanup_eval
      intro!: arg_cong [where f = "\<lambda>x. live_update x s"])

text \<open>
  C1, as the code has it. On a context that is live and owns its resources, one call of
  \<^verbatim>\<open>cleanup\<close> succeeds and releases the context block and each resource it holds,
  each once. The interrupt handler and the end of \<^verbatim>\<open>main\<close> both make this one call.
  \<^verbatim>\<open>cleanup\<close> is not idempotent: a second call reads the context block the first
  one freed.
\<close>

theorem cleanup_releases_once:
  "owns_resources s \<Longrightarrow>
     cleanup s = Inr (s\<lparr>live := live s - set (ctx s # resources s)\<rparr>)
     \<and> and_then (cleanup s) cleanup = Inl Use_after_free
     \<and> sig_handler SIGINT s = Exited EXIT_SUCCESS (s\<lparr>live := live s - set (ctx s # resources s)\<rparr>)
     \<and> finish ret s = Main_returns (if ret = - 1 then EXIT_FAILURE else ret)"
  using cleanup_owned [of s]
  by (simp add: and_then_def sig_handler_def finish_def) (simp add: cleanup_def)

text \<open>Two calls in a row on the context \<^verbatim>\<open>main\<close> builds: the second one faults.\<close>

theorem cleanup_twice_faults:
  "and_then (cleanup (initial_state [''gfcli''])) cleanup = Inl Use_after_free
   \<and> cleanup (initial_state [''gfcli'']) \<noteq> Inl Use_after_free"
  by (simp add: initial_state_def cleanup_eval)

theorem cleanup_releases_once_witness:
  "owns_resources (initial_state [''gfcli''])
   \<and> cleanup (initial_state [''gfcli'']) = Inr ((initial_state [''gfcli''])\<lparr>live := {}\<rparr>)
   \<and> sig_handler SIGINT (initial_state [''gfcli'']) = Exited 0 ((initial_state [''gfcli''])\<lparr>live := {}\<rparr>)"
proof -
  have own: "owns_resources (initial_state [''gfcli''])"
    by (simp add: owns_resources_def resources_def List.map_filter_simps initial_state_def)
  have "live (initial_state [''gfcli'']) - set (ctx (initial_state [''gfcli'']) # resources (initial_state [''gfcli''])) = {}"
    by (simp add: resources_def List.map_filter_simps initial_state_def)
  with cleanup_releases_once [OF own, of 0] own show ?thesis
    by (simp add: EXIT_SUCCESS_def)
qed

subsection \<open>The index of \<^verbatim>\<open>trim\<close>\<close>

lemma size_dec_Suc: "Suc k < 2 ^ 64 \<Longrightarrow> size_dec (Suc k) = k"
  by (simp add: size_dec_def)

lemma size_dec_0: "size_dec 0 = 2 ^ 64 - 1"
  by (simp add: size_dec_def)

lemma isspace_NUL: "\<not> isspace NUL"
  by (simp add: isspace_def NUL_def)

lemma trim_loop_all_space:
  "length buf < 2 ^ 64 \<Longrightarrow> i < length buf \<Longrightarrow> \<forall>j \<le> i. isspace (buf ! j) \<Longrightarrow>
   trim_loop buf 0 i = Inl (Read_outside (2 ^ 64 - 1))"
proof (induction i arbitrary: buf)
  case 0
  then have sp: "isspace (buf ! 0)" by simp
  have "trim_loop buf 0 0 = trim_loop (buf[0 := NUL]) 0 (size_dec 0)"
    using trim_loop_space [of 0 0 buf] 0 sp by simp
  also have "\<dots> = Inl (Read_outside (2 ^ 64 - 1))"
    using trim_loop_outside [of "buf[0 := NUL]" 0 "2 ^ 64 - 1"] 0 by (simp add: size_dec_0)
  finally show ?case .
next
  case (Suc i)
  have small: "Suc i < 2 ^ 64" using Suc.prems by simp
  then have pos: "(0 + Suc i) mod 2 ^ 64 = Suc i" by simp
  have sp: "isspace (buf ! Suc i)" using Suc.prems by simp
  have "trim_loop buf 0 (Suc i) = trim_loop (buf[Suc i := NUL]) 0 (size_dec (Suc i))"
    using trim_loop_space [of 0 "Suc i" buf] Suc.prems sp unfolding pos by simp
  also have "\<dots> = trim_loop (buf[Suc i := NUL]) 0 i"
    using size_dec_Suc [OF small] by simp
  also have "\<dots> = Inl (Read_outside (2 ^ 64 - 1))"
    using Suc.prems by (intro Suc.IH) simp_all
  finally show ?case .
qed

text \<open>
  A token at the start of its buffer that consists of whitespace only: the loop clears it
  down to index 0, the index wraps to \<open>2 ^ 64 - 1\<close>, and the next read is outside.
\<close>

lemma trim_all_space:
  assumes "length buf < 2 ^ 64" and "cstr buf 0 \<noteq> []" and "\<forall>c \<in> set (cstr buf 0). isspace c"
  shows "trim buf 0 = Inl (Read_outside (2 ^ 64 - 1))"
proof -
  let ?w = "cstr buf 0"
  have w: "?w = takeWhile (\<lambda>c. c \<noteq> NUL) buf" by (simp add: cstr_def)
  have len: "length ?w \<le> length buf" unfolding w by (rule length_takeWhile_le)
  obtain n where n: "length ?w = Suc n" using assms(2) by (cases ?w) auto
  have nth: "\<forall>j \<le> n. buf ! j = ?w ! j"
    using n unfolding w by (auto simp: takeWhile_nth)
  have "\<forall>j \<le> n. isspace (buf ! j)"
    using nth assms(3) n by (metis le_imp_less_Suc nth_mem)
  moreover have "n < length buf" using n len by simp
  moreover have "size_dec (strlen buf 0) = n"
  proof -
    have "Suc n < 2 ^ 64" using n len assms(1) by simp
    from size_dec_Suc [OF this] show ?thesis using n by (simp add: strlen_def)
  qed
  ultimately show ?thesis
    using trim_loop_all_space [of buf n] assms(1) by (simp add: trim_def)
qed

text \<open>
  C9 fails on the code. For the line of a tab and a newline the first token is the whole
  line; \<^verbatim>\<open>trim\<close> clears both characters, its index wraps from 0 to
  \<open>2 ^ 64 - 1\<close>, and \<^verbatim>\<open>str[i]\<close> is read before the start of the token and of
  its buffer. For the line of a space and a newline the token is the newline at offset 1;
  the wrapped index first reads the space before the token, then the byte before the
  buffer.
\<close>

theorem trim_index_wraps_below_zero:
  "size_dec 0 = 2 ^ 64 - 1
   \<and> trim [TAB, NL, NUL] 0 = Inl (Read_outside (2 ^ 64 - 1))
   \<and> shell_token [TAB, NL] = Inl (Read_outside (2 ^ 64 - 1))
   \<and> shell_token [SP, NL] = Inl (Read_outside (2 ^ 64 - 2))
   \<and> start_shell stub_externals (initial_state [''gfcli'']) [([TAB, NL], Alloc_ok)] =
       ([Prompt None], Shell_faults (Read_outside (2 ^ 64 - 1)))"
  by (simp add: token_eval initial_state_def)

subsection \<open>\<^verbatim>\<open>parse_options\<close> and the connection\<close>

text \<open>
  C5 fails on the code. With the long flag \<^verbatim>\<open>--xlator-option=a.b=c\<close> before the
  URL, \<^verbatim>\<open>getopt_long\<close> stores 3 in \<^verbatim>\<open>option_index\<close>; \<^verbatim>\<open>argc\<close> is 3, the test
  \<^verbatim>\<open>argc - option_index >= 2\<close> fails, and \<^verbatim>\<open>parse_options\<close> returns with the
  option recorded but without a call of \<^verbatim>\<open>cli_connect\<close>: \<^verbatim>\<open>ctx->fs\<close> is still
  NULL. The same option given as \<^verbatim>\<open>-o a.b=c\<close> leaves \<^verbatim>\<open>option_index\<close> at 0 and
  the connection is made.
\<close>

theorem parse_options_long_flag_skips_connect:
  "getopt_long [''--xlator-option=a.b=c'', ''glfs://localhost/vol''] =
     \<lparr>scan_result = Getopt_opt (CHR ''o'') (Some 3) (Some ''a.b=c''), scan_skipped = [],
      scan_taken = [''--xlator-option=a.b=c''], scan_rest = [''glfs://localhost/vol'']\<rparr>
   \<and> parse_options stub_externals
       (initial_state [''gfcli'', ''--xlator-option=a.b=c'', ''glfs://localhost/vol'']) =
     Inr ((initial_state [''gfcli'', ''--xlator-option=a.b=c'', ''glfs://localhost/vol''])
            \<lparr>options_mem := \<lparr>debug = False, xlator_options = [(''a.b'', ''c'')]\<rparr>\<rparr>)
   \<and> fs (ctx_mem (initial_state [''gfcli'', ''--xlator-option=a.b=c'', ''glfs://localhost/vol''])) = None
   \<and> parse_options stub_externals
       (initial_state [''gfcli'', ''-o'', ''a.b=c'', ''glfs://localhost/vol'']) =
     Inr ((initial_state [''gfcli'', ''-o'', ''a.b=c'', ''glfs://localhost/vol''])
            \<lparr>ctx_mem := (ctx_mem (initial_state [''gfcli'', ''-o'', ''a.b=c'', ''glfs://localhost/vol'']))
                 \<lparr>conn_str := Some ''glfs://localhost/vol'', fs := Some 3\<rparr>,
             options_mem := \<lparr>debug = False, xlator_options = [(''a.b'', ''c'')]\<rparr>,
             live := {1, 2, 3}\<rparr>)"
  by (simp add: parse_options_def parse_loop.simps option_scan_def long_option_def
      short_option_def match_long_def long_options_def upt_rec stub_externals_def
      stub_handlers_def initial_state_def EXIT_FAILURE_def insert_commute)

text \<open>
  With the URL before the option, \<^verbatim>\<open>getopt_long\<close> has moved it behind the option
  when \<^verbatim>\<open>cli_connect\<close> is called.
\<close>

lemma parse_options_reorders_argv:
  "parse_options stub_externals
       (initial_state [''gfcli'', ''glfs://localhost/vol'', ''-o'', ''a.b=c'']) =
     Inr ((initial_state [''gfcli'', ''glfs://localhost/vol'', ''-o'', ''a.b=c''])
            \<lparr>ctx_mem := (ctx_mem (initial_state [''gfcli'', ''glfs://localhost/vol'', ''-o'', ''a.b=c'']))
                 \<lparr>argv := Some [Some ''gfcli'', Some ''-o'', Some ''a.b=c'', Some ''glfs://localhost/vol''],
                  conn_str := Some ''glfs://localhost/vol'', fs := Some 3\<rparr>,
             options_mem := \<lparr>debug = False, xlator_options = [(''a.b'', ''c'')]\<rparr>,
             live := {1, 2, 3}\<rparr>)"
  by (simp add: parse_options_def parse_loop.simps option_scan_def long_option_def
      short_option_def match_long_def long_options_def upt_rec stub_externals_def
      stub_handlers_def initial_state_def EXIT_FAILURE_def insert_commute)

subsection \<open>The tokens of a line\<close>

text \<open>
  The tokenization in the spec's words, to compare \<^verbatim>\<open>split_str\<close> with: a line is cut
  at every space, so N spaces give N+1 tokens, and a space at the start or after another
  space gives an empty token.
\<close>

fun spec_tokens :: "string \<Rightarrow> string list" where
  "spec_tokens [] = [[]]"
| "spec_tokens (c # cs) =
     (if c = SP then [] # spec_tokens cs
      else (case spec_tokens cs of [] \<Rightarrow> [[c]] | w # ws \<Rightarrow> (c # w) # ws))"

lemma spec_tokens_not_Nil: "spec_tokens l \<noteq> []"
  by (induction l) (auto split: list.splits)

lemma length_spec_tokens: "length (spec_tokens l) = Suc (length (filter (\<lambda>c. c = SP) l))"
  by (induction l) (auto split: list.splits simp: spec_tokens_not_Nil)

lemma spec_tokens_no_space: "SP \<notin> set a \<Longrightarrow> spec_tokens a = [a]"
  by (induction a) auto

lemma spec_tokens_at_space: "SP \<notin> set a \<Longrightarrow> spec_tokens (a @ SP # b) = a # spec_tokens b"
  by (induction a) auto

lemma fill_args_Cons:
  assumes "c \<noteq> SP" "c \<noteq> NL" "c \<noteq> NUL" "buf \<noteq> []" "hd buf \<noteq> NUL"
    and "fill_args (Suc n) buf = Inr (t # ts)"
  shows "fill_args (Suc n) (c # buf) = Inr ((c # t) # ts)"
proof -
  obtain b bs where buf: "buf = b # bs" using assms(4) by (cases buf) auto
  let ?P = "\<lambda>x. x \<noteq> SP \<and> x \<noteq> NL \<and> x \<noteq> NUL"
  have b: "b \<noteq> NUL" using assms(5) buf by simp
  from assms(6) b have t: "t = takeWhile ?P buf"
    and ts: "fill_args n (drop (Suc (length (takeWhile ?P buf))) buf) = Inr ts"
    unfolding buf by (auto simp: Let_def split: sum.splits)
  have "takeWhile ?P (c # buf) = c # takeWhile ?P buf"
    using assms(1-3) by simp
  then show ?thesis
    using assms(3) t ts by (simp add: Let_def)
qed

lemma fill_args_spec_tokens:
  "NUL \<notin> set l \<Longrightarrow> NL \<notin> set l \<Longrightarrow>
   fill_args (Suc (length (filter (\<lambda>c. c = SP) l))) (l @ [NL, NUL]) = Inr (spec_tokens l)"
proof (induction l)
  case Nil
  then show ?case by (simp add: chars_distinct)
next
  case (Cons c cs)
  then have IH: "fill_args (Suc (length (filter (\<lambda>c. c = SP) cs))) (cs @ [NL, NUL]) = Inr (spec_tokens cs)"
    by simp
  show ?case
  proof (cases "c = SP")
    case True
    then show ?thesis using IH by (simp add: chars_distinct)
  next
    case False
    obtain t ts where f: "spec_tokens cs = t # ts"
      using spec_tokens_not_Nil [of cs] by (cases "spec_tokens cs") auto
    have hd: "hd (cs @ [NL, NUL]) \<noteq> NUL"
      using Cons.prems by (cases cs) (auto simp: chars_distinct)
    have "fill_args (Suc (length (filter (\<lambda>c. c = SP) cs))) (c # (cs @ [NL, NUL])) = Inr ((c # t) # ts)"
      using False Cons.prems hd IH f by (intro fill_args_Cons) auto
    then show ?thesis using False f by simp
  qed
qed

text \<open>The same for a last line without newline that does not end in a space.\<close>

lemma fill_args_spec_tokens_eof:
  "NUL \<notin> set l \<Longrightarrow> NL \<notin> set l \<Longrightarrow> l \<noteq> [] \<Longrightarrow> last l \<noteq> SP \<Longrightarrow>
   fill_args (Suc (length (filter (\<lambda>c. c = SP) l))) (l @ [NUL]) = Inr (spec_tokens l)"
proof (induction l)
  case Nil
  then show ?case by simp
next
  case (Cons c cs)
  show ?case
  proof (cases "cs = []")
    case True
    with Cons.prems show ?thesis by simp
  next
    case False
    with Cons have IH: "fill_args (Suc (length (filter (\<lambda>c. c = SP) cs))) (cs @ [NUL]) =
        Inr (spec_tokens cs)"
      by simp
    show ?thesis
    proof (cases "c = SP")
      case True
      then show ?thesis using IH by (simp add: chars_distinct)
    next
      case not_sp: False
      obtain t ts where f: "spec_tokens cs = t # ts"
        using spec_tokens_not_Nil [of cs] by (cases "spec_tokens cs") auto
      have hd: "hd (cs @ [NUL]) \<noteq> NUL"
        using Cons.prems False by (cases cs) auto
      have "fill_args (Suc (length (filter (\<lambda>c. c = SP) cs))) (c # (cs @ [NUL])) =
          Inr ((c # t) # ts)"
        using not_sp Cons.prems hd IH f by (intro fill_args_Cons) auto
      then show ?thesis using not_sp f by simp
    qed
  qed
qed

lemma spaces_content:
  "NUL \<notin> set l \<Longrightarrow> spaces (l @ [NUL]) = length (filter (\<lambda>c. c = SP) l)"
proof -
  assume "NUL \<notin> set l"
  then have "takeWhile (\<lambda>c. c \<noteq> NUL) (l @ [NUL]) = l"
    by (induction l) auto
  then show ?thesis by (simp add: spaces_def)
qed

lemma spaces_line:
  "NUL \<notin> set l \<Longrightarrow> spaces ((l @ [NL]) @ [NUL]) = length (filter (\<lambda>c. c = SP) l)"
  using spaces_content [of "l @ [NL]"] chars_distinct by auto

lemma split_str_spec_tokens:
  assumes "NUL \<notin> set l" and "NL \<notin> set l" and "length (filter (\<lambda>c. c = SP) l) < INT_MAX"
  shows "split_str True (l @ [NL]) =
    Inr (int (Suc (length (filter (\<lambda>c. c = SP) l))), Some (map Some (spec_tokens l)))"
proof -
  have "count_args ((l @ [NL]) @ [NUL]) 0 = Inr (length (filter (\<lambda>c. c = SP) l))"
    using count_args_spaces [of 0 "(l @ [NL]) @ [NUL]"] spaces_line [OF assms(1)] assms(3)
    by simp
  then show ?thesis
    using fill_args_spec_tokens [OF assms(1,2)] assms(3)
    by (simp add: split_str_def length_spec_tokens)
qed

lemma split_str_spec_tokens_eof:
  assumes "NUL \<notin> set l" and "NL \<notin> set l" and "l \<noteq> []" and "last l \<noteq> SP"
    and "length (filter (\<lambda>c. c = SP) l) < INT_MAX"
  shows "split_str True l =
    Inr (int (Suc (length (filter (\<lambda>c. c = SP) l))), Some (map Some (spec_tokens l)))"
proof -
  have "count_args (l @ [NUL]) 0 = Inr (length (filter (\<lambda>c. c = SP) l))"
    using count_args_spaces [of 0 "l @ [NUL]"] spaces_content [OF assms(1)] assms(5)
    by simp
  then show ?thesis
    using fill_args_spec_tokens_eof [OF assms(1-4)] assms(5)
    by (simp add: split_str_def length_spec_tokens)
qed

subsection \<open>What a dispatched line prints\<close>

text \<open>
  A line that has a token, in a turn whose allocations succeed: the token decides between
  the report of an unknown command and the call of the handler with the tokens of
  \<^verbatim>\<open>split_str\<close>.
\<close>

lemma dispatch_events:
  assumes "hd (line @ [NUL]) \<noteq> NL" and "shell_token line = Inr token"
  shows "(get_cmd token = None \<longrightarrow>
            (\<exists>es. fst (start_shell E s ((line, Alloc_ok) # rest)) =
               Prompt (conn_str (ctx_mem s)) # Unknown_command token # es))
       \<and> (\<forall>cmd. get_cmd token = Some cmd \<longrightarrow> spaces (line @ [NUL]) < INT_MAX \<longrightarrow>
            (\<exists>n av es. split_str True line = Inr (n, Some av) \<and>
               fst (start_shell E s ((line, Alloc_ok) # rest)) =
                 Prompt (conn_str (ctx_mem s)) # Invoked (execute cmd) av # es))"
proof (intro conjI impI allI)
  assume "get_cmd token = None"
  from step_unknown [OF assms(1) _ assms(2) this, of Alloc_ok E s rest]
  show "\<exists>es. fst (start_shell E s ((line, Alloc_ok) # rest)) =
      Prompt (conn_str (ctx_mem s)) # Unknown_command token # es"
    by (simp add: fst_emit del: start_shell.simps)
next
  fix cmd
  assume cmd: "get_cmd token = Some cmd" and small: "spaces (line @ [NUL]) < INT_MAX"
  obtain av where sp: "split_str True line = Inr (int (Suc (spaces (line @ [NUL]))), Some av)"
    using split_str_ok [OF small] by blast
  let ?s1 = "s\<lparr>ctx_mem := (ctx_mem s)\<lparr>argc := int (Suc (spaces (line @ [NUL]))), argv := Some av\<rparr>\<rparr>"
  obtain out hr where ex: "execute_cmd E (execute cmd) ?s1 = (out, hr)"
    by (cases "execute_cmd E (execute cmd) ?s1") blast
  have "\<exists>es. fst (start_shell E s ((line, Alloc_ok) # rest)) =
      Prompt (conn_str (ctx_mem s)) # Invoked (execute cmd) av # es"
  proof (cases hr)
    case (Returns ret s2)
    with ex have "execute_cmd E (execute cmd) ?s1 = (out, Returns ret s2)" by simp
    from step_returns [OF assms cmd sp this, of rest] show ?thesis
      by (simp add: fst_emit del: start_shell.simps)
  next
    case (Exits st)
    with ex have "execute_cmd E (execute cmd) ?s1 = (out, Exits st)" by simp
    from step_exits [OF assms cmd sp this, of rest] show ?thesis
      by (simp del: start_shell.simps)
  qed
  with sp show "\<exists>n av es. split_str True line = Inr (n, Some av) \<and>
      fst (start_shell E s ((line, Alloc_ok) # rest)) =
        Prompt (conn_str (ctx_mem s)) # Invoked (execute cmd) av # es"
    by blast
qed

text \<open>
  Such a line brings the session back to the prompt, that is to \<^verbatim>\<open>start_shell\<close> on the
  lines that follow, whatever status the handler returns.
\<close>

lemma dispatch_continues:
  assumes "hd (line @ [NUL]) \<noteq> NL" and "shell_token line = Inr token"
    and "get_cmd token = Some cmd" and "split_str True line = Inr (n, Some av)"
    and "execute_cmd E (execute cmd) (s\<lparr>ctx_mem := (ctx_mem s)\<lparr>argc := n, argv := Some av\<rparr>\<rparr>)
          = (out, Returns ret s2)"
  shows "start_shell E s ((line, Alloc_ok) # rest) =
    emit (Prompt (conn_str (ctx_mem s)) # Invoked (execute cmd) av # out)
      (start_shell E (s2\<lparr>ctx_mem := (ctx_mem s2)\<lparr>argv := None\<rparr>\<rparr>) rest)"
  using assms by (rule step_returns)

subsection \<open>Blank lines\<close>

text \<open>The line of a lone newline is a no-op: the prompt, and the next line.\<close>

lemma newline_line_is_noop:
  "start_shell E s (([NL], mem) # rest) =
     emit [Prompt (conn_str (ctx_mem s))] (start_shell E s rest)"
  by (rule step_blank) simp

text \<open>
  C6 fails on the code. The test for a blank line is \<^verbatim>\<open>*line == '\n'\<close> alone, and a
  line of spaces goes on to the token extraction, where it faults. Three spaces at the end
  of the input: \<^verbatim>\<open>strtok_r\<close> finds no token and \<^verbatim>\<open>trim\<close> is called on NULL. Three
  spaces and a newline: the token is the newline, and \<^verbatim>\<open>trim\<close> runs over the start of
  the buffer. Only the line of a lone newline takes the path of the no-op.
\<close>

theorem spaces_only_line_not_skipped:
  "start_shell stub_externals (initial_state [''gfcli'']) [([SP, SP, SP], Alloc_ok)] =
     ([Prompt None], Shell_faults Null_pointer)
   \<and> start_shell stub_externals (initial_state [''gfcli'']) [([SP, SP, SP, NL], Alloc_ok)] =
     ([Prompt None], Shell_faults (Read_outside (2 ^ 64 - 4)))
   \<and> start_shell stub_externals (initial_state [''gfcli'']) [([NL], Alloc_ok)] =
     ([Prompt None, Prompt None], Shell_returns (- 1) (initial_state [''gfcli'']) [])"
  by (simp add: token_eval emit_def initial_state_def)

subsection \<open>The first token of a line\<close>

text \<open>
  \<^verbatim>\<open>trim\<close> on a token that ends in whitespace after a character that is none: the
  whitespace is cleared from the end and the loop stops at that character.
\<close>

lemma trim_loop_clears_tail:
  assumes "P \<noteq> []" and "\<not> isspace (last P)" and "off < length P"
    and "\<forall>c \<in> set t. isspace c" and "length (P @ t @ Y) < 2 ^ 64"
  shows "trim_loop (P @ t @ Y) off (length P + length t - 1 - off) =
         Inr (P @ replicate (length t) NUL @ Y)"
  using assms(4,5)
proof (induction t arbitrary: Y rule: rev_induct)
  case Nil
  let ?i = "length P + length ([]::char list) - 1 - off"
  let ?buf = "P @ [] @ Y"
  have pos: "(off + ?i) mod 2 ^ 64 = length P - 1"
    using assms(3) Nil.prems(2) by simp
  have lt: "length P - 1 < length ?buf"
    using assms(1) by (cases P) simp_all
  have at: "?buf ! (length P - 1) = last P"
    using assms(1) by (simp add: nth_append last_conv_nth)
  have c1: "(off + ?i) mod 2 ^ 64 < length ?buf"
    using pos lt by simp
  have c2: "\<not> isspace (?buf ! ((off + ?i) mod 2 ^ 64))"
    using pos at assms(2) by simp
  from trim_loop_stop [OF c1 c2] show ?case by simp
next
  case (snoc x t)
  let ?buf = "P @ (t @ [x]) @ Y"
  let ?i = "length P + length (t @ [x]) - 1 - off"
  have i: "?i = length P + length t - off" by simp
  have pos: "(off + ?i) mod 2 ^ 64 = length P + length t"
    using assms(3) snoc.prems(2) by simp
  have at: "?buf ! (length P + length t) = x"
    by (simp add: nth_append)
  have x: "isspace x" using snoc.prems(1) by simp
  have upd: "?buf[length P + length t := NUL] = P @ t @ (NUL # Y)"
    by (simp add: list_update_append)
  have dec: "size_dec ?i = length P + length t - 1 - off"
  proof -
    have "?i = Suc (length P + length t - 1 - off)" using assms(3) by simp
    moreover have "Suc (length P + length t - 1 - off) < 2 ^ 64" using snoc.prems(2) by simp
    ultimately show ?thesis using size_dec_Suc by simp
  qed
  have "trim_loop ?buf off ?i = trim_loop (?buf[length P + length t := NUL]) off (size_dec ?i)"
    using trim_loop_space [of off ?i ?buf] pos at x by simp
  also have "\<dots> = trim_loop (P @ t @ (NUL # Y)) off (length P + length t - 1 - off)"
    by (simp only: upd dec)
  also have "\<dots> = Inr (P @ replicate (length t) NUL @ (NUL # Y))"
    using snoc.prems by (intro snoc.IH) simp_all
  also have "\<dots> = Inr (P @ replicate (length (t @ [x])) NUL @ Y)"
    by (simp add: replicate_app_Cons_same)
  finally show ?case .
qed


lemma takeWhile_stop:
  "\<forall>x \<in> set xs. P x \<Longrightarrow> ys = [] \<or> \<not> P (hd ys) \<Longrightarrow> takeWhile P (xs @ ys) = xs"
  by (cases ys) (simp_all add: takeWhile_append2)

lemma strtok_r_first_word:
  assumes w: "w \<noteq> []" "SP \<notin> set w" "NUL \<notin> set w"
    and t: "SP \<notin> set t" "NUL \<notin> set t"
    and tail: "tail = [] \<or> (\<exists>r. tail = SP # r)"
  shows "\<exists>Y. length Y = length tail \<and>
           strtok_r (replicate k SP @ w @ t @ tail @ [NUL]) =
             Some ((replicate k SP @ w) @ t @ (NUL # Y), k)"
proof -
  let ?B = "replicate k SP @ w @ t @ tail @ [NUL]"
  obtain d Z where dz: "tail @ [NUL] = d # Z" and d: "d = SP \<or> d = NUL"
    using tail by (cases tail) auto
  have lenZ: "length Z = length tail"
    using arg_cong [OF dz, of length] by simp
  have hdw: "hd w \<noteq> SP \<and> hd w \<noteq> NUL"
    using w by (cases w) auto
  have s: "length (takeWhile (\<lambda>c. c = SP) ?B) = k"
  proof -
    have "takeWhile (\<lambda>c. c = SP) (replicate k SP @ (w @ t @ tail @ [NUL])) = replicate k SP"
      using w(1) hdw by (intro takeWhile_stop) auto
    then show ?thesis by simp
  qed
  have Bk: "?B ! k = hd w"
    using w(1) by (cases w) (simp_all add: nth_append)
  have dropk: "drop k ?B = w @ t @ tail @ [NUL]"
    by simp
  have tw: "takeWhile (\<lambda>c. c \<noteq> SP \<and> c \<noteq> NUL) (drop k ?B) = w @ t"
  proof -
    have "takeWhile (\<lambda>c. c \<noteq> SP \<and> c \<noteq> NUL) ((w @ t) @ (d # Z)) = w @ t"
      using w(2,3) t d by (intro takeWhile_stop) auto
    then show ?thesis unfolding dropk using dz by simp
  qed
  have Beq: "?B = (replicate k SP @ w) @ t @ (d # Z)"
    using dz by simp
  have Be: "?B ! (k + length (w @ t)) = d"
    unfolding Beq by (simp add: nth_append)
  have upd: "?B[k + length (w @ t) := NUL] = (replicate k SP @ w) @ t @ (NUL # Z)"
    unfolding Beq by (simp add: list_update_append)
  have lenB: "k < length ?B" "k + length (w @ t) < length ?B"
    using w(1) by simp_all
  show ?thesis
  proof (cases "d = SP")
    case True
    then have "strtok_r ?B = Some ((replicate k SP @ w) @ t @ (NUL # Z), k)"
      unfolding strtok_r_def s tw Let_def using Bk hdw Be upd lenB by simp
    with lenZ show ?thesis by blast
  next
    case False
    with d have dn: "d = NUL" by simp
    then have "strtok_r ?B = Some ((replicate k SP @ w) @ t @ (NUL # Z), k)"
      unfolding strtok_r_def s tw Let_def using Bk hdw Be lenB chars_distinct(1) Beq
      by (simp del: append_assoc)
    with lenZ show ?thesis by blast
  qed
qed

text \<open>
  The token start_shell looks up: leading spaces are skipped, the word runs to the next
  space (or to the end of the line), and the whitespace at its end, such as the newline, is
  trimmed.
\<close>

lemma shell_token_first_word:
  assumes w: "w \<noteq> []" "SP \<notin> set w" "NUL \<notin> set w" "\<not> isspace (last w)"
    and t: "\<forall>c \<in> set t. isspace c" "SP \<notin> set t" "NUL \<notin> set t"
    and tail: "tail = [] \<or> (\<exists>r. tail = SP # r \<and> NUL \<notin> set r)"
    and len: "length (replicate k SP @ w @ t @ tail) < 2 ^ 64 - 1"
  shows "shell_token (replicate k SP @ w @ t @ tail) = Inr w"
proof -
  let ?line = "replicate k SP @ w @ t @ tail"
  let ?P = "replicate k SP @ w"
  have "NUL \<notin> set tail"
    using tail chars_distinct(1) by auto
  then have nonul: "\<forall>x \<in> set ?line. x \<noteq> NUL"
    using w(3) t(3) chars_distinct(1) by auto
  have "takeWhile (\<lambda>c. c \<noteq> NUL) (?line @ [NUL]) = ?line"
  proof (rule takeWhile_stop)
    show "\<forall>x \<in> set ?line. x \<noteq> NUL" by (rule nonul)
    show "[NUL] = [] \<or> \<not> hd [NUL] \<noteq> NUL" by simp
  qed
  then have copy: "cstr (?line @ [NUL]) 0 = ?line"
    by (simp only: cstr_def drop_0)
  have tail': "tail = [] \<or> (\<exists>r. tail = SP # r)"
    using tail by blast
  obtain Y where lenY: "length Y = length tail"
    and tok0: "strtok_r (replicate k SP @ w @ t @ tail @ [NUL]) = Some (?P @ t @ (NUL # Y), k)"
    using strtok_r_first_word [OF w(1-3) t(2,3) tail', of k] by blast
  have tok: "strtok_r (?line @ [NUL]) = Some (?P @ t @ (NUL # Y), k)"
    using tok0 by simp
  let ?buf = "?P @ t @ (NUL # Y)"
  have small: "length ?buf < 2 ^ 64"
    using len lenY by simp
  have str: "cstr ?buf k = w @ t"
  proof -
    have "takeWhile (\<lambda>c. c \<noteq> NUL) ((w @ t) @ (NUL # Y)) = w @ t"
      using w(3) t(3) by (intro takeWhile_stop) auto
    then show ?thesis by (simp add: cstr_def)
  qed
  have dec: "size_dec (strlen ?buf k) = length ?P + length t - 1 - k"
  proof -
    obtain n where n: "length (w @ t) = Suc n"
      using w(1) by (cases w) auto
    then have "Suc n < 2 ^ 64" using small by simp
    from size_dec_Suc [OF this] have "size_dec (strlen ?buf k) = n"
      using n by (simp only: strlen_def str)
    moreover have "length ?P + length t - 1 - k = n"
      using n by simp
    ultimately show ?thesis by simp
  qed
  have Pne: "?P \<noteq> []" using w(1) by simp
  have lastP: "\<not> isspace (last ?P)" using w(1,4) by simp
  have off: "k < length ?P" using w(1) by simp
  have trimmed: "trim ?buf k = Inr (?P @ replicate (length t) NUL @ (NUL # Y))"
    unfolding trim_def dec by (rule trim_loop_clears_tail [OF Pne lastP off t(1) small])
  have result: "cstr (?P @ replicate (length t) NUL @ (NUL # Y)) k = w"
  proof -
    have "takeWhile (\<lambda>c. c \<noteq> NUL) (w @ (replicate (length t) NUL @ (NUL # Y))) = w"
      using w(3) by (intro takeWhile_stop) (auto simp: hd_append)
    then show ?thesis by (simp add: cstr_def)
  qed
  have "shell_token ?line =
      (case strtok_r (?line @ [NUL]) of
         None \<Rightarrow> Inl Null_pointer
       | Some (buf, token) \<Rightarrow>
           (case trim buf token of
              Inl f \<Rightarrow> Inl f
            | Inr buf' \<Rightarrow> Inr (cstr buf' token)))"
    by (simp only: shell_token_def Let_def copy)
  also have "\<dots> = Inr w"
    by (simp only: tok trimmed result option.case prod.case sum.case)
  finally show ?thesis .
qed

subsection \<open>Tokens and lookup\<close>

text \<open>
  C7, as the code has it. For a line that ends with its newline, and for a last line
  without newline that does not end in a space, \<^verbatim>\<open>split_str\<close> yields N+1 tokens, N
  the number of spaces of the line (fewer than \<^verbatim>\<open>INT_MAX\<close>), and they are the line cut
  at every space: a space at the start or after another space gives an empty token. The
  lookup does not use the first of these tokens. It uses the token of \<^verbatim>\<open>strtok_r\<close> and
  \<^verbatim>\<open>trim\<close>, which skips the leading spaces: when that token is a registered name the
  line is dispatched with the tokens of \<^verbatim>\<open>split_str\<close> as \<^verbatim>\<open>argv\<close>, whether or
  not the first of them is empty; it is reported as an unknown command when that token is
  not registered.
\<close>

theorem split_str_tokens_and_lookup:
  "(NUL \<notin> set l \<longrightarrow> NL \<notin> set l \<longrightarrow> length (filter (\<lambda>c. c = SP) l) < INT_MAX \<longrightarrow>
      split_str True (l @ [NL]) =
        Inr (int (Suc (length (filter (\<lambda>c. c = SP) l))), Some (map Some (spec_tokens l)))
      \<and> (l \<noteq> [] \<longrightarrow> last l \<noteq> SP \<longrightarrow>
           split_str True l =
             Inr (int (Suc (length (filter (\<lambda>c. c = SP) l))), Some (map Some (spec_tokens l))))
      \<and> length (spec_tokens l) = Suc (length (filter (\<lambda>c. c = SP) l)))
   \<and> (SP \<notin> set a \<longrightarrow> spec_tokens (a @ SP # b) = a # spec_tokens b)
   \<and> (w \<noteq> [] \<longrightarrow> SP \<notin> set w \<longrightarrow> NUL \<notin> set w \<longrightarrow> \<not> isspace (last w) \<longrightarrow>
        (\<forall>c \<in> set t. isspace c) \<longrightarrow> SP \<notin> set t \<longrightarrow> NUL \<notin> set t \<longrightarrow>
        (tail = [] \<or> (\<exists>r. tail = SP # r \<and> NUL \<notin> set r)) \<longrightarrow>
        length (replicate k SP @ w @ t @ tail) < 2 ^ 64 - 1 \<longrightarrow>
        shell_token (replicate k SP @ w @ t @ tail) = Inr w)
   \<and> (hd (line @ [NUL]) \<noteq> NL \<longrightarrow> shell_token line = Inr token \<longrightarrow>
        (get_cmd token = None \<longrightarrow>
           (\<exists>es. fst (start_shell E s ((line, Alloc_ok) # rest)) =
              Prompt (conn_str (ctx_mem s)) # Unknown_command token # es))
        \<and> (\<forall>cmd. get_cmd token = Some cmd \<longrightarrow> spaces (line @ [NUL]) < INT_MAX \<longrightarrow>
             (\<exists>n av es. split_str True line = Inr (n, Some av) \<and>
                fst (start_shell E s ((line, Alloc_ok) # rest)) =
                  Prompt (conn_str (ctx_mem s)) # Invoked (execute cmd) av # es)))"
  using split_str_spec_tokens [of l] split_str_spec_tokens_eof [of l] length_spec_tokens [of l]
    spec_tokens_at_space [of a b] dispatch_events [of line token E s rest]
    shell_token_first_word [of w t tail k]
  by (intro conjI impI) blast+

text \<open>
  The line of a space, \<^verbatim>\<open>ls\<close> and a newline: the first token of \<^verbatim>\<open>split_str\<close>
  is empty, the lookup finds \<^verbatim>\<open>ls\<close>, and \<^verbatim>\<open>do_ls\<close> is called with an empty
  \<^verbatim>\<open>argv[0]\<close>; no unknown command is reported. And a last line that ends in a space,
  without newline: \<^verbatim>\<open>argc\<close> is 2, but the second loop stops at the terminator and
  \<^verbatim>\<open>argv[1]\<close> stays uninitialised, so there is one token, not two. And a line of
  \<^verbatim>\<open>INT_MAX\<close> spaces: the count overflows \<^verbatim>\<open>int argc\<close>.
\<close>

lemma spaces_replicate: "spaces (replicate n SP @ [NUL]) = n"
  using spaces_content [of "replicate n SP"] chars_distinct(1) by auto

theorem leading_space_line_is_dispatched:
  "split_str True [SP, CHR ''l'', CHR ''s'', NL] = Inr (2, Some [Some [], Some ''ls''])
   \<and> shell_token [SP, CHR ''l'', CHR ''s'', NL] = Inr ''ls''
   \<and> start_shell stub_externals (initial_state [''gfcli''])
        [([SP, CHR ''l'', CHR ''s'', NL], Alloc_ok)] =
       ([Prompt None, Invoked Do_ls [Some [], Some ''ls''], Prompt None],
        Shell_returns (- 1)
          ((initial_state [''gfcli''])\<lparr>ctx_mem := (ctx_mem (initial_state [''gfcli'']))\<lparr>argc := 2, argv := None\<rparr>\<rparr>)
          [])
   \<and> split_str True [CHR ''l'', CHR ''s'', SP] = Inr (2, Some [Some ''ls'', None])
   \<and> split_str True (replicate INT_MAX SP) = Inl Int_overflow"
proof -
  have "split_str True (replicate INT_MAX SP) = Inl Int_overflow"
    by (rule split_str_overflow) (simp only: spaces_replicate order_refl)
  moreover have "split_str True [SP, CHR ''l'', CHR ''s'', NL] = Inr (2, Some [Some [], Some ''ls''])"
    and "shell_token [SP, CHR ''l'', CHR ''s'', NL] = Inr ''ls''"
    and "start_shell stub_externals (initial_state [''gfcli''])
        [([SP, CHR ''l'', CHR ''s'', NL], Alloc_ok)] =
       ([Prompt None, Invoked Do_ls [Some [], Some ''ls''], Prompt None],
        Shell_returns (- 1)
          ((initial_state [''gfcli''])\<lparr>ctx_mem := (ctx_mem (initial_state [''gfcli'']))\<lparr>argc := 2, argv := None\<rparr>\<rparr>)
          [])"
    and "split_str True [CHR ''l'', CHR ''s'', SP] = Inr (2, Some [Some ''ls'', None])"
    by (simp_all add: token_eval registry_eval execute_cmd_def emit_def stub_externals_def
        stub_handlers_def initial_state_def)
  ultimately show ?thesis by (simp only: simp_thms)
qed

theorem split_str_tokens_and_lookup_witness:
  "split_str True ([SP, CHR ''l'', CHR ''s'', SP, SP, CHR ''x''] @ [NL]) =
     Inr (4, Some [Some [], Some ''ls'', Some [], Some ''x''])
   \<and> split_str True [SP, CHR ''l'', CHR ''s'', SP, SP, CHR ''x''] =
     Inr (4, Some [Some [], Some ''ls'', Some [], Some ''x''])
   \<and> (\<exists>es. fst (start_shell stub_externals (initial_state [''gfcli''])
                 [([SP, CHR ''l'', CHR ''s'', SP, SP, CHR ''x'', NL], Alloc_ok)]) =
          Prompt None # Invoked Do_ls [Some [], Some ''ls'', Some [], Some ''x''] # es)"
proof -
  let ?l = "[SP, CHR ''l'', CHR ''s'', SP, SP, CHR ''x'']"
  let ?s = "initial_state [''gfcli'']"
  let ?ls = "\<lparr>cmd_alias = Some ''gfls'', name = ''ls'', execute = Do_ls\<rparr>"
  have clean: "NUL \<notin> set ?l" "NL \<notin> set ?l" "?l \<noteq> []" "last ?l \<noteq> SP"
    by (simp_all add: NUL_def NL_def SP_def)
  have small: "length (filter (\<lambda>c. c = SP) ?l) < INT_MAX"
    by (simp add: INT_MAX_def)
  have sp: "split_str True (?l @ [NL]) =
      Inr (int (Suc (length (filter (\<lambda>c. c = SP) ?l))), Some (map Some (spec_tokens ?l)))"
    using split_str_tokens_and_lookup [of ?l] clean small by blast
  have sq: "split_str True ?l =
      Inr (int (Suc (length (filter (\<lambda>c. c = SP) ?l))), Some (map Some (spec_tokens ?l)))"
    using split_str_tokens_and_lookup [of ?l] clean small by blast
  have toks: "spec_tokens ?l = [[], ''ls'', [], ''x'']"
    by (simp add: SP_def)
  have sp': "split_str True (?l @ [NL]) = Inr (4, Some [Some [], Some ''ls'', Some [], Some ''x''])"
    unfolding sp toks by (simp add: SP_def)
  have sq': "split_str True ?l = Inr (4, Some [Some [], Some ''ls'', Some [], Some ''x''])"
    unfolding sq toks by (simp add: SP_def)
  have nb: "hd ((?l @ [NL]) @ [NUL]) \<noteq> NL"
    by (simp add: SP_def NL_def)
  have "shell_token (replicate 1 SP @ ''ls'' @ [] @ [SP, SP, CHR ''x'', NL]) = Inr ''ls''"
    using split_str_tokens_and_lookup
      [of "[]" "[]" "[]" "''ls''" "[]" "[SP, SP, CHR ''x'', NL]" 1 "[]" "[]" stub_externals ?s "[]"]
    by (simp add: SP_def NUL_def NL_def isspace_def)
  then have tk: "shell_token (?l @ [NL]) = Inr ''ls''"
    by (simp add: SP_def)
  have cmd: "get_cmd ''ls'' = Some ?ls"
    by (simp add: registry_eval)
  have bound: "spaces ((?l @ [NL]) @ [NUL]) < INT_MAX"
    by (simp add: spaces_def SP_def NUL_def NL_def INT_MAX_def)
  have "\<exists>n av es. split_str True (?l @ [NL]) = Inr (n, Some av) \<and>
      fst (start_shell stub_externals ?s ((?l @ [NL], Alloc_ok) # [])) =
        Prompt (conn_str (ctx_mem ?s)) # Invoked (execute ?ls) av # es"
    using split_str_tokens_and_lookup
      [of "[]" "[]" "[]" "[]" "[]" "[]" 0 "?l @ [NL]" "''ls''" stub_externals ?s "[]"]
      nb tk cmd bound by blast
  then obtain es where "fst (start_shell stub_externals ?s ((?l @ [NL], Alloc_ok) # [])) =
      Prompt (conn_str (ctx_mem ?s)) # Invoked (execute ?ls) [Some [], Some ''ls'', Some [], Some ''x''] # es"
    unfolding sp' by auto
  then have "\<exists>es. fst (start_shell stub_externals ?s
        [([SP, CHR ''l'', CHR ''s'', SP, SP, CHR ''x'', NL], Alloc_ok)]) =
      Prompt None # Invoked Do_ls [Some [], Some ''ls'', Some [], Some ''x''] # es"
    by (simp add: initial_state_def del: start_shell.simps)
  with sp' sq' show ?thesis by blast
qed

end
